theory Spec2Isabelle
  imports Complex_Main "HOL-Library.Word" "HOL-Library.Sublist"
begin

section \<open>AP\_Module: external modules, hook registry and dispatch\<close>

text \<open>
  A shallow embedding of \<^verbatim>\<open>libraries/AP_Module/AP_Module.cpp\<close>, the build with
  \<^verbatim>\<open>HAVE_LIBDL\<close> defined (without it \<^verbatim>\<open>module_scan\<close> has an empty body).

  The C++ code works through effects: it loads shared objects, resolves symbols, reads the
  clock and the AHRS, and calls into the loaded modules. Each operation of the model
  returns the list of effects it performs, oldest first, next to the state of the
  registry it leaves behind. What the outside world answers (the directory listing, the
  dynamic loader, the constants of \<^verbatim>\<open>AP_Module_Structures.h\<close>) is a parameter of the
  model, the record \<open>env\<close>.
\<close>

subsection \<open>Data\<close>

text \<open>A \<^verbatim>\<open>float\<close> is its IEEE-754 binary32 bit pattern; copying one copies the 32 bits.\<close>

type_synonym float = "32 word"

text \<open>The non-null \<^verbatim>\<open>void *\<close> that \<^verbatim>\<open>dlopen\<close> and \<^verbatim>\<open>dlsym\<close> return, as addresses.\<close>

type_synonym handle = nat
type_synonym symbol = nat

text \<open>
  Modelled from the spec: \<^verbatim>\<open>enum ModuleHooks\<close> of \<^verbatim>\<open>AP_Module.h\<close> (not among the sources),
  in the order of the table \<^verbatim>\<open>hook_names\<close>, which the enumeration indexes.
\<close>

datatype ModuleHooks =
    HOOK_SETUP_START
  | HOOK_SETUP_COMPLETE
  | HOOK_AHRS_UPDATE
  | HOOK_GYRO_SAMPLE
  | HOOK_ACCEL_SAMPLE

text \<open>The indices \<open>0 .. NUM_HOOKS - 1\<close>, in the order the loop of \<^verbatim>\<open>module_scan\<close> visits them.\<close>

definition hook_ids :: "ModuleHooks list" where
  "hook_ids = [HOOK_SETUP_START, HOOK_SETUP_COMPLETE, HOOK_AHRS_UPDATE,
               HOOK_GYRO_SAMPLE, HOOK_ACCEL_SAMPLE]"

fun hook_names :: "ModuleHooks \<Rightarrow> string" where
  "hook_names HOOK_SETUP_START = ''hook_setup_start''"
| "hook_names HOOK_SETUP_COMPLETE = ''hook_setup_complete''"
| "hook_names HOOK_AHRS_UPDATE = ''hook_AHRS_update''"
| "hook_names HOOK_GYRO_SAMPLE = ''hook_gyro_sample''"
| "hook_names HOOK_ACCEL_SAMPLE = ''hook_accel_sample''"

text \<open>
  Modelled from the spec: \<^verbatim>\<open>Vector3f\<close>, \<^verbatim>\<open>Matrix3f\<close>, \<^verbatim>\<open>Quaternion\<close> and \<^verbatim>\<open>Location\<close> are
  declared in AP\_Math and AP\_Common (not among the sources). A vector has three lanes and
  a quaternion four, read by \<^verbatim>\<open>operator[]\<close>; the code only uses the constant indices below.
\<close>

datatype Vector3f = Vector3f float float float

fun vec_at :: "Vector3f \<Rightarrow> nat \<Rightarrow> float" where
  "vec_at (Vector3f a b c) i = (if i = 0 then a else if i = 1 then b else c)"

datatype Matrix3f = Matrix3f Vector3f Vector3f Vector3f

datatype Quaternion = Quaternion float float float float

fun quat_at :: "Quaternion \<Rightarrow> nat \<Rightarrow> float" where
  "quat_at (Quaternion a b c d) i =
     (if i = 0 then a else if i = 1 then b else if i = 2 then c else d)"

record Location =
  lat :: "32 word"
  lng :: "32 word"
  alt :: "32 word"

text \<open>
  The navigation source \<^verbatim>\<open>const AP_AHRS_NavEKF &ahrs\<close>, as what each accessor answers during
  one call. An accessor with an out-parameter and a \<^verbatim>\<open>bool\<close> result is an option.
\<close>

record AP_AHRS_NavEKF =
  initialised :: bool
  healthy :: bool
  get_rotation_body_to_ned :: Matrix3f
  roll :: float
  pitch :: float
  yaw :: float
  get_origin :: "Location option"
  get_position :: "Location option"
  get_relative_position_NED :: "Vector3f option"
  get_gyro :: Vector3f
  get_accel_ef :: Vector3f

datatype AHRS_status =
    AHRS_STATUS_INITIALISING
  | AHRS_STATUS_UNHEALTHY
  | AHRS_STATUS_HEALTHY

text \<open>
  Modelled from the spec: the snapshot structures of \<^verbatim>\<open>AP_Module_Structures.h\<close> (not among
  the sources), with the fields the code assigns. The three structures start with the same
  two fields; the nested \<^verbatim>\<open>origin\<close> and \<^verbatim>\<open>position\<close> structures are flattened, a dot
  becoming an underscore; an array is a list of its length.
\<close>

record versioned =
  structure_version :: "32 word"
  time_us :: "64 word"

record AHRS_state = versioned +
  status :: AHRS_status
  quat :: "float list"
  eulers :: "float list"
  origin_initialised :: bool
  origin_latitude :: "32 word"
  origin_longitude :: "32 word"
  origin_altitude :: float
  position_available :: bool
  position_latitude :: "32 word"
  position_longitude :: "32 word"
  position_altitude :: float
  relative_position :: "float list"
  gyro_rate :: "float list"
  accel_ef :: "float list"

record imu_sample = versioned +
  "instance" :: "8 word"
  delta_time :: float

record gyro_sample = imu_sample +
  gyro :: "float list"

record accel_sample = imu_sample +
  accel :: "float list"

text \<open>Value initialisation, \<^verbatim>\<open>struct AHRS_state state {}\<close>: every field zero.\<close>

definition AHRS_state_zero :: AHRS_state where
  "AHRS_state_zero =
     \<lparr> structure_version = 0, time_us = 0,
       status = AHRS_STATUS_INITIALISING,
       quat = replicate 4 0, eulers = replicate 3 0,
       origin_initialised = False, origin_latitude = 0, origin_longitude = 0,
       origin_altitude = 0,
       position_available = False, position_latitude = 0, position_longitude = 0,
       position_altitude = 0,
       relative_position = replicate 3 0, gyro_rate = replicate 3 0,
       accel_ef = replicate 3 0 \<rparr>"

definition gyro_sample_zero :: gyro_sample where
  "gyro_sample_zero =
     \<lparr> structure_version = 0, time_us = 0, instance = 0, delta_time = 0,
       gyro = replicate 3 0 \<rparr>"

definition accel_sample_zero :: accel_sample where
  "accel_sample_zero =
     \<lparr> structure_version = 0, time_us = 0, instance = 0, delta_time = 0,
       accel = replicate 3 0 \<rparr>"

subsection \<open>Single precision arithmetic\<close>

text \<open>
  The expression \<^verbatim>\<open>loc.alt*0.01f\<close> converts a 32-bit integer to \<^verbatim>\<open>float\<close> and multiplies
  two floats. Both operations are those of IEEE-754 binary32 in the default rounding mode,
  round to nearest, ties to even, evaluated in single precision
  (\<^verbatim>\<open>FLT_EVAL_METHOD\<close> 0). A finite float is \<open>\<plusminus> f32_mant * 2 ^ f32_scale\<close>.
\<close>

fun bit_length :: "nat \<Rightarrow> nat" where
  "bit_length n = (if n = 0 then 0 else Suc (bit_length (n div 2)))"

declare bit_length.simps [simp del]

definition f32_sign :: "float \<Rightarrow> bool" where
  "f32_sign x = bit x 31"

definition f32_exp :: "float \<Rightarrow> nat" where
  "f32_exp x = unat (take_bit 8 (drop_bit 23 x))"

definition f32_frac :: "float \<Rightarrow> nat" where
  "f32_frac x = unat (take_bit 23 x)"

definition f32_pack :: "bool \<Rightarrow> nat \<Rightarrow> nat \<Rightarrow> float" where
  "f32_pack s ex fr = word_of_nat ((if s then 2 ^ 31 else 0) + 2 ^ 23 * ex + fr)"

definition f32_mant :: "float \<Rightarrow> nat" where
  "f32_mant x = (if f32_exp x = 0 then f32_frac x else 2 ^ 23 + f32_frac x)"

definition f32_scale :: "float \<Rightarrow> int" where
  "f32_scale x = (if f32_exp x = 0 then - 149 else int (f32_exp x) - 150)"

text \<open>The number a finite float stands for.\<close>

definition f32_value :: "float \<Rightarrow> rat" where
  "f32_value x = (if f32_sign x then - 1 else 1) * of_nat (f32_mant x) * 2 powi f32_scale x"

text \<open>
  Rounding \<open>m * 2 ^ e\<close> (with \<open>0 < m\<close>) to a significand of 24 bits, or fewer where the
  exponent would fall below that of the subnormal numbers: the bits below are dropped
  and the significand goes up when they are more than half a unit, or exactly half with an
  odd significand (ties to even). A significand that reaches \<open>2 ^ 24\<close> is renormalised.
\<close>

definition round_mant :: "nat \<Rightarrow> int \<Rightarrow> nat \<times> int" where
  "round_mant m e =
     (let q = max (e + int (bit_length m) - 24) (- 149);
          k = nat (q - e);
          mant = (if q \<le> e then m * 2 ^ nat (e - q) else m div 2 ^ k);
          rest = (if q \<le> e then 0 else 2 * (m mod 2 ^ k));
          mant = (if 2 ^ k < rest \<or> (rest = 2 ^ k \<and> odd mant) then mant + 1 else mant)
      in if mant = 2 ^ 24 then (2 ^ 23, q + 1) else (mant, q))"

text \<open>
  The float nearest to \<open>\<plusminus> m * 2 ^ e\<close>; a result beyond the largest finite float is an
  infinity.
\<close>

definition f32_round :: "bool \<Rightarrow> nat \<Rightarrow> int \<Rightarrow> float" where
  "f32_round s m e =
     (if m = 0 then f32_pack s 0 0
      else case round_mant m e of
        (mant, q) \<Rightarrow>
          if mant < 2 ^ 23 then f32_pack s 0 mant
          else if 105 \<le> q then f32_pack s 255 0
          else f32_pack s (nat (q + 150)) (mant - 2 ^ 23))"

text \<open>The conversion of an \<^verbatim>\<open>int32_t\<close> to \<^verbatim>\<open>float\<close>.\<close>

definition f32_of_int32 :: "32 word \<Rightarrow> float" where
  "f32_of_int32 x = f32_round (sint x < 0) (nat \<bar>sint x\<bar>) 0"

text \<open>
  The product of two floats. With an infinity or a NaN among the operands the result is
  an infinity or the default NaN; the code never multiplies such operands, one of its
  operands being a converted integer and the other the literal \<^verbatim>\<open>0.01f\<close>.
\<close>

definition f32_nan :: float where
  "f32_nan = 0x7FC00000"

definition f32_mul :: "float \<Rightarrow> float \<Rightarrow> float" where
  "f32_mul a b =
     (if f32_exp a = 255 \<or> f32_exp b = 255 then
        (if (f32_exp a = 255 \<and> f32_frac a \<noteq> 0) \<or> (f32_exp b = 255 \<and> f32_frac b \<noteq> 0)
            \<or> f32_mant a = 0 \<or> f32_mant b = 0
         then f32_nan
         else f32_pack (f32_sign a \<noteq> f32_sign b) 255 0)
      else f32_round (f32_sign a \<noteq> f32_sign b) (f32_mant a * f32_mant b)
             (f32_scale a + f32_scale b))"

subsection \<open>Effects and the world\<close>

datatype ahrs_accessor =
    Read_initialised
  | Read_healthy
  | Read_rotation_body_to_ned
  | Read_roll
  | Read_pitch
  | Read_yaw
  | Read_origin
  | Read_position
  | Read_relative_position_NED
  | Read_gyro
  | Read_accel_ef

text \<open>
  The effects an operation can have on the world outside: opening and closing the module
  directory, the calls of the dynamic loader and the diagnostic after a failed
  \<^verbatim>\<open>dlopen\<close>, reading the clock, reading an accessor of the navigation source, and calling
  an entry point of a module with its argument. Reading the directory entries and the
  allocation and release of the path string are not recorded.
\<close>

datatype event =
    Opendir string
  | Closedir string
  | Dlopen string
  | Printf_dlopen_failed string
  | Dlsym handle string
  | Dlclose handle
  | Micros64
  | Ahrs_read ahrs_accessor
  | Fn_setup_start symbol "64 word"
  | Fn_setup_complete symbol "64 word"
  | Fn_AHRS_update symbol AHRS_state
  | Fn_gyro_sample symbol gyro_sample
  | Fn_accel_sample symbol accel_sample

text \<open>
  What the platform answers. \<open>opendir\<close> gives the names that successive \<^verbatim>\<open>readdir\<close> calls
  return, or nothing when the directory cannot be opened; \<open>asprintf_ok\<close> says whether
  \<^verbatim>\<open>asprintf\<close> can build the path of an entry; \<open>dlopen\<close> and \<open>dlsym\<close> are the dynamic
  loader. \<open>from_rotation_matrix\<close> is \<^verbatim>\<open>Quaternion::from_rotation_matrix\<close> of AP\_Math, and
  the three version numbers are the macros of \<^verbatim>\<open>AP_Module_Structures.h\<close>.
\<close>

record env =
  opendir :: "string \<Rightarrow> string list option"
  asprintf_ok :: "string \<Rightarrow> string \<Rightarrow> bool"
  dlopen :: "string \<Rightarrow> handle option"
  dlsym :: "handle \<Rightarrow> string \<Rightarrow> symbol option"
  from_rotation_matrix :: "Matrix3f \<Rightarrow> Quaternion"
  AHRS_state_version :: "32 word"
  gyro_sample_version :: "32 word"
  accel_sample_version :: "32 word"

text \<open>
  The registry \<^verbatim>\<open>hooks[NUM_HOOKS]\<close>: for each hook the linked list of its registrations,
  the head first. \<open>free_nodes\<close> is how many \<^verbatim>\<open>hook_list\<close> nodes \<^verbatim>\<open>new\<close> can still
  provide before it returns \<^verbatim>\<open>nullptr\<close>.
\<close>

record registry =
  hooks :: "ModuleHooks \<Rightarrow> symbol list"
  free_nodes :: nat

datatype error = Panic string

type_synonym 'a outcome = "event list \<times> (error + 'a)"

text \<open>The events of a first part, then the events and the result of what follows.\<close>

fun after :: "event list \<Rightarrow> 'a outcome \<Rightarrow> 'a outcome" where
  "after tr (tr', res) = (tr @ tr', res)"

subsection \<open>Scanning a module for hook symbols\<close>

text \<open>
  The loop of \<^verbatim>\<open>module_scan\<close> over the hook indices still to visit. A symbol that resolves
  gets a new node, linked in front of \<^verbatim>\<open>hooks[i]\<close>; when \<^verbatim>\<open>new\<close> fails the code panics.
\<close>

fun module_scan_hooks ::
  "env \<Rightarrow> handle \<Rightarrow> ModuleHooks list \<Rightarrow> bool \<Rightarrow> registry \<Rightarrow> (bool \<times> registry) outcome"
where
  "module_scan_hooks e m [] found_hook r = ([], Inr (found_hook, r))"
| "module_scan_hooks e m (i # rest) found_hook r =
     (case dlsym e m (hook_names i) of
        None \<Rightarrow> after [Dlsym m (hook_names i)] (module_scan_hooks e m rest found_hook r)
      | Some s \<Rightarrow>
          if free_nodes r = 0
          then ([Dlsym m (hook_names i)],
                Inl (Panic (''Failed to allocate hook for '' @ hook_names i)))
          else after [Dlsym m (hook_names i)]
                 (module_scan_hooks e m rest True
                    (r\<lparr>hooks := (hooks r)(i := s # hooks r i),
                       free_nodes := free_nodes r - 1\<rparr>)))"

definition module_scan :: "env \<Rightarrow> string \<Rightarrow> registry \<Rightarrow> registry outcome" where
  "module_scan e path r =
     (case dlopen e path of
        None \<Rightarrow> ([Dlopen path, Printf_dlopen_failed path], Inr r)
      | Some m \<Rightarrow>
          (case module_scan_hooks e m hook_ids False r of
             (tr, Inl err) \<Rightarrow> (Dlopen path # tr, Inl err)
           | (tr, Inr (found_hook, r')) \<Rightarrow>
               if \<not> found_hook
               then (Dlopen path # tr @ [Dlclose m], Inr r')
               else (Dlopen path # tr, Inr r')))"

subsection \<open>Looking for shared libraries in the module path\<close>

text \<open>
  \<^verbatim>\<open>strrchr(s, c)\<close>: the part of \<open>s\<close> from the last \<open>c\<close> on, if there is one. (For the
  terminator \<open>c = 0\<close> the C function gives the empty rest of the string.)
\<close>

fun strrchr :: "string \<Rightarrow> char \<Rightarrow> string option" where
  "strrchr [] c = (if c = CHR 0x00 then Some [] else None)"
| "strrchr (x # xs) c =
     (case strrchr xs c of
        Some found \<Rightarrow> Some found
      | None \<Rightarrow> if x = c then Some (x # xs) else None)"

text \<open>The body of the \<^verbatim>\<open>readdir\<close> loop of \<^verbatim>\<open>init\<close>, over the entries still to come.\<close>

fun init_entries :: "env \<Rightarrow> string \<Rightarrow> string list \<Rightarrow> registry \<Rightarrow> registry outcome" where
  "init_entries e module_path [] r = ([], Inr r)"
| "init_entries e module_path (d_name # rest) r =
     (case strrchr d_name CHR ''.'' of
        None \<Rightarrow> init_entries e module_path rest r
      | Some extension \<Rightarrow>
          if extension \<noteq> ''.so'' then init_entries e module_path rest r
          else if \<not> asprintf_ok e module_path d_name
          then init_entries e module_path rest r
          else (case module_scan e (module_path @ ''/'' @ d_name) r of
                  (tr, Inl err) \<Rightarrow> (tr, Inl err)
                | (tr, Inr r') \<Rightarrow> after tr (init_entries e module_path rest r')))"

definition init :: "env \<Rightarrow> string \<Rightarrow> registry \<Rightarrow> registry outcome" where
  "init e module_path r =
     (case opendir e module_path of
        None \<Rightarrow> ([Opendir module_path], Inr r)
      | Some d \<Rightarrow>
          (case init_entries e module_path d r of
             (tr, Inl err) \<Rightarrow> (Opendir module_path # tr, Inl err)
           | (tr, Inr r') \<Rightarrow> (Opendir module_path # tr @ [Closedir module_path], Inr r')))"

subsection \<open>Calling the hooks\<close>

text \<open>
  Each operation takes \<open>now\<close>, the value \<^verbatim>\<open>AP_HAL::micros64()\<close> returns to it. The loop
  \<^verbatim>\<open>for (h = hooks[X]; h; h = h->next)\<close> calls the entry points in the order of the list.
  A call into a module is opaque; the model records it with its argument.
\<close>

definition call_hook_setup_start :: "64 word \<Rightarrow> registry \<Rightarrow> event list \<times> registry" where
  "call_hook_setup_start now r =
     (Micros64 # map (\<lambda>fn. Fn_setup_start fn now) (hooks r HOOK_SETUP_START), r)"

definition call_hook_setup_complete :: "64 word \<Rightarrow> registry \<Rightarrow> event list \<times> registry" where
  "call_hook_setup_complete now r =
     (Micros64 # map (\<lambda>fn. Fn_setup_complete fn now) (hooks r HOOK_SETUP_COMPLETE), r)"

text \<open>The literal \<^verbatim>\<open>0.01f\<close>: sign 0, exponent 120, fraction \<open>0x23D70A\<close>.\<close>

definition float_0_01 :: float where
  "float_0_01 = 0x3C23D70A"

text \<open>The block that constructs the \<^verbatim>\<open>AHRS_state\<close> structure, assignment by assignment.\<close>

definition AHRS_state_of :: "env \<Rightarrow> 64 word \<Rightarrow> AP_AHRS_NavEKF \<Rightarrow> AHRS_state" where
  "AHRS_state_of e now ahrs =
     (let state = AHRS_state_zero;
          state = state\<lparr>structure_version := AHRS_state_version e\<rparr>;
          state = state\<lparr>time_us := now\<rparr>;
          state = (if \<not> initialised ahrs then state\<lparr>status := AHRS_STATUS_INITIALISING\<rparr>
                   else if healthy ahrs then state\<lparr>status := AHRS_STATUS_HEALTHY\<rparr>
                   else state\<lparr>status := AHRS_STATUS_UNHEALTHY\<rparr>);
          q = from_rotation_matrix e (get_rotation_body_to_ned ahrs);
          state = state\<lparr>quat := (quat state)[0 := quat_at q 0]\<rparr>;
          state = state\<lparr>quat := (quat state)[1 := quat_at q 1]\<rparr>;
          state = state\<lparr>quat := (quat state)[2 := quat_at q 2]\<rparr>;
          state = state\<lparr>quat := (quat state)[3 := quat_at q 3]\<rparr>;
          state = state\<lparr>eulers := (eulers state)[0 := roll ahrs]\<rparr>;
          state = state\<lparr>eulers := (eulers state)[1 := pitch ahrs]\<rparr>;
          state = state\<lparr>eulers := (eulers state)[2 := yaw ahrs]\<rparr>;
          state = (case get_origin ahrs of
                     None \<Rightarrow> state
                   | Some loc \<Rightarrow>
                       state\<lparr>origin_initialised := True,
                             origin_latitude := lat loc,
                             origin_longitude := lng loc,
                             origin_altitude :=
                               f32_mul (f32_of_int32 (alt loc)) float_0_01\<rparr>);
          state = (case get_position ahrs of
                     None \<Rightarrow> state
                   | Some loc \<Rightarrow>
                       state\<lparr>position_available := True,
                             position_latitude := lat loc,
                             position_longitude := lng loc,
                             position_altitude :=
                               f32_mul (f32_of_int32 (alt loc)) float_0_01\<rparr>);
          state = (case get_relative_position_NED ahrs of
                     None \<Rightarrow> state
                   | Some pos \<Rightarrow>
                       state\<lparr>relative_position :=
                               (relative_position state)
                                 [0 := vec_at pos 0, 1 := vec_at pos 1, 2 := vec_at pos 2]\<rparr>);
          state = state\<lparr>gyro_rate := (gyro_rate state)[0 := vec_at (get_gyro ahrs) 0]\<rparr>;
          state = state\<lparr>gyro_rate := (gyro_rate state)[1 := vec_at (get_gyro ahrs) 1]\<rparr>;
          state = state\<lparr>gyro_rate := (gyro_rate state)[2 := vec_at (get_gyro ahrs) 2]\<rparr>;
          state = state\<lparr>accel_ef := (accel_ef state)[0 := vec_at (get_accel_ef ahrs) 0]\<rparr>;
          state = state\<lparr>accel_ef := (accel_ef state)[1 := vec_at (get_accel_ef ahrs) 0]\<rparr>;
          state = state\<lparr>accel_ef := (accel_ef state)[2 := vec_at (get_accel_ef ahrs) 0]\<rparr>
      in state)"

text \<open>The accessors of the navigation source that this block calls, in the order it calls them.\<close>

definition AHRS_reads :: "AP_AHRS_NavEKF \<Rightarrow> event list" where
  "AHRS_reads ahrs =
     Ahrs_read Read_initialised
     # (if initialised ahrs then [Ahrs_read Read_healthy] else [])
     @ map Ahrs_read
         [Read_rotation_body_to_ned, Read_roll, Read_pitch, Read_yaw, Read_origin,
          Read_position, Read_relative_position_NED, Read_gyro, Read_accel_ef]"

definition call_hook_AHRS_update ::
  "env \<Rightarrow> 64 word \<Rightarrow> AP_AHRS_NavEKF \<Rightarrow> registry \<Rightarrow> event list \<times> registry"
where
  "call_hook_AHRS_update e now ahrs r =
     (if hooks r HOOK_AHRS_UPDATE = [] then ([], r)
      else let state = AHRS_state_of e now ahrs
           in (Micros64 # AHRS_reads ahrs
                 @ map (\<lambda>fn. Fn_AHRS_update fn state) (hooks r HOOK_AHRS_UPDATE), r))"

definition gyro_sample_of :: "env \<Rightarrow> 64 word \<Rightarrow> 8 word \<Rightarrow> float \<Rightarrow> Vector3f \<Rightarrow> gyro_sample" where
  "gyro_sample_of e now inst dt v =
     (let state = gyro_sample_zero;
          state = state\<lparr>structure_version := gyro_sample_version e\<rparr>;
          state = state\<lparr>time_us := now\<rparr>;
          state = state\<lparr>instance := inst\<rparr>;
          state = state\<lparr>delta_time := dt\<rparr>;
          state = state\<lparr>gyro := (gyro state)[0 := vec_at v 0]\<rparr>;
          state = state\<lparr>gyro := (gyro state)[1 := vec_at v 1]\<rparr>;
          state = state\<lparr>gyro := (gyro state)[2 := vec_at v 2]\<rparr>
      in state)"

definition call_hook_gyro_sample ::
  "env \<Rightarrow> 64 word \<Rightarrow> 8 word \<Rightarrow> float \<Rightarrow> Vector3f \<Rightarrow> registry \<Rightarrow> event list \<times> registry"
where
  "call_hook_gyro_sample e now inst dt v r =
     (if hooks r HOOK_GYRO_SAMPLE = [] then ([], r)
      else let state = gyro_sample_of e now inst dt v
           in (Micros64 # map (\<lambda>fn. Fn_gyro_sample fn state) (hooks r HOOK_GYRO_SAMPLE), r))"

definition accel_sample_of :: "env \<Rightarrow> 64 word \<Rightarrow> 8 word \<Rightarrow> float \<Rightarrow> Vector3f \<Rightarrow> accel_sample" where
  "accel_sample_of e now inst dt v =
     (let state = accel_sample_zero;
          state = state\<lparr>structure_version := accel_sample_version e\<rparr>;
          state = state\<lparr>time_us := now\<rparr>;
          state = state\<lparr>instance := inst\<rparr>;
          state = state\<lparr>delta_time := dt\<rparr>;
          state = state\<lparr>accel := (accel state)[0 := vec_at v 0]\<rparr>;
          state = state\<lparr>accel := (accel state)[1 := vec_at v 1]\<rparr>;
          state = state\<lparr>accel := (accel state)[2 := vec_at v 2]\<rparr>
      in state)"

definition call_hook_accel_sample ::
  "env \<Rightarrow> 64 word \<Rightarrow> 8 word \<Rightarrow> float \<Rightarrow> Vector3f \<Rightarrow> registry \<Rightarrow> event list \<times> registry"
where
  "call_hook_accel_sample e now inst dt v r =
     (if hooks r HOOK_ACCEL_SAMPLE = [] then ([], r)
      else let state = accel_sample_of e now inst dt v
           in (Micros64 # map (\<lambda>fn. Fn_accel_sample fn state) (hooks r HOOK_ACCEL_SAMPLE), r))"

text \<open>The entry points an operation called, in the order of the calls.\<close>

fun called :: "event \<Rightarrow> symbol option" where
  "called (Fn_setup_start fn t) = Some fn"
| "called (Fn_setup_complete fn t) = Some fn"
| "called (Fn_AHRS_update fn st) = Some fn"
| "called (Fn_gyro_sample fn st) = Some fn"
| "called (Fn_accel_sample fn st) = Some fn"
| "called _ = None"

definition calls :: "event list \<Rightarrow> symbol list" where
  "calls tr = List.map_filter called tr"

text \<open>The paths an operation handed to \<^verbatim>\<open>dlopen\<close>, in order.\<close>

fun loaded :: "event \<Rightarrow> string option" where
  "loaded (Dlopen path) = Some path"
| "loaded _ = None"

definition load_attempts :: "event list \<Rightarrow> string list" where
  "load_attempts tr = List.map_filter loaded tr"

text \<open>
  What a scan of a directory asks of the allocator. \<open>symbols_found\<close> counts the hook symbols
  that resolve in the module at a path (none when it does not load): \<^verbatim>\<open>module_scan\<close>
  allocates one node for each. \<open>scanned_paths\<close> are the paths \<^verbatim>\<open>init\<close> hands to
  \<^verbatim>\<open>module_scan\<close>, in the order of the directory, and \<open>nodes_needed\<close> adds up the nodes
  their scans allocate.
\<close>

definition symbols_found :: "env \<Rightarrow> string \<Rightarrow> nat" where
  "symbols_found e path =
     (case dlopen e path of
        None \<Rightarrow> 0
      | Some m \<Rightarrow> length (filter (\<lambda>i. dlsym e m (hook_names i) \<noteq> None) hook_ids))"

definition scanned_paths :: "env \<Rightarrow> string \<Rightarrow> string list \<Rightarrow> string list" where
  "scanned_paths e p names =
     map (\<lambda>d. p @ ''/'' @ d) (filter (\<lambda>d. suffix ''.so'' d \<and> asprintf_ok e p d) names)"

definition nodes_needed :: "env \<Rightarrow> string \<Rightarrow> string list \<Rightarrow> nat" where
  "nodes_needed e p names = sum_list (map (symbols_found e) (scanned_paths e p names))"

subsection \<open>A small world to run the operations in\<close>

text \<open>
  Two module directories. \<^verbatim>\<open>/modules\<close> holds one module with an AHRS hook beside two files
  that are no shared objects. \<^verbatim>\<open>/lifo\<close> holds two modules that export all five hooks, one
  module for whose path \<^verbatim>\<open>asprintf\<close> fails, and one module that exports no hook.
\<close>

definition demo_env :: env where
  "demo_env =
     \<lparr> opendir = (\<lambda>p. if p = ''/modules'' then Some [''a.so'', ''b.txt'', ''c.SO'']
                        else if p = ''/lifo''
                        then Some [''first.so'', ''broken.so'', ''second.so'', ''plain.so'']
                        else None),
       asprintf_ok = (\<lambda>p d. d \<noteq> ''broken.so''),
       dlopen = (\<lambda>path. if path = ''/modules/a.so'' then Some 1
                          else if path = ''/lifo/first.so'' then Some 2
                          else if path = ''/lifo/second.so'' then Some 3
                          else if path = ''/lifo/plain.so'' then Some 4
                          else if path = ''/lifo/broken.so'' then Some 5
                          else None),
       dlsym = (\<lambda>m n. if m = 1 then (if n = ''hook_AHRS_update'' then Some 100 else None)
                        else if m = 2 \<or> m = 3 then
                          (if n = ''hook_setup_start'' then Some (100 * m)
                           else if n = ''hook_setup_complete'' then Some (100 * m + 1)
                           else if n = ''hook_AHRS_update'' then Some (100 * m + 2)
                           else if n = ''hook_gyro_sample'' then Some (100 * m + 3)
                           else if n = ''hook_accel_sample'' then Some (100 * m + 4)
                           else None)
                        else if m = 5 then (if n = ''hook_setup_start'' then Some 500 else None)
                        else None),
       from_rotation_matrix = (\<lambda>R. Quaternion 0x3F800000 0 0 0),
       AHRS_state_version = 1,
       gyro_sample_version = 1,
       accel_sample_version = 2 \<rparr>"

text \<open>
  A navigation source: roll \<open>1.0\<close>, an origin 5 cm above the datum, no position, and the
  earth-frame acceleration \<open>(1.0, 2.0, 3.0)\<close>.
\<close>

definition demo_ahrs :: AP_AHRS_NavEKF where
  "demo_ahrs =
     \<lparr> initialised = True, healthy = True,
       get_rotation_body_to_ned =
         Matrix3f (Vector3f 0x3F800000 0 0) (Vector3f 0 0x3F800000 0) (Vector3f 0 0 0x3F800000),
       roll = 0x3F800000, pitch = 0, yaw = 0,
       get_origin = Some \<lparr> lat = 0x1F3A4D10, lng = 0x00112233, alt = 5 \<rparr>,
       get_position = None,
       get_relative_position_NED = None,
       get_gyro = Vector3f 0 0 0,
       get_accel_ef = Vector3f 0x3F800000 0x40000000 0x40400000 \<rparr>"

text \<open>The registry before any module is scanned, and one with a single AHRS hook.\<close>

definition empty_registry :: registry where
  "empty_registry = \<lparr> hooks = (\<lambda>i. []), free_nodes = 64 \<rparr>"

definition demo_registry :: registry where
  "demo_registry = \<lparr> hooks = (\<lambda>i. [])(HOOK_AHRS_UPDATE := [100]), free_nodes = 63 \<rparr>"

section \<open>Properties\<close>

subsection \<open>The fields of a snapshot\<close>

lemma AHRS_state_of_version:
  "structure_version (AHRS_state_of e now ahrs) = AHRS_state_version e"
  by (cases "get_origin ahrs"; cases "get_position ahrs"; cases "get_relative_position_NED ahrs";
      cases "initialised ahrs"; cases "healthy ahrs")
     (simp_all add: AHRS_state_of_def AHRS_state_zero_def Let_def)

lemma AHRS_state_of_eulers:
  "eulers (AHRS_state_of e now ahrs) = [roll ahrs, pitch ahrs, yaw ahrs]"
  by (cases "get_origin ahrs"; cases "get_position ahrs"; cases "get_relative_position_NED ahrs";
      cases "initialised ahrs"; cases "healthy ahrs")
     (simp_all add: AHRS_state_of_def AHRS_state_zero_def Let_def numeral_3_eq_3)

lemma AHRS_state_of_quat:
  "quat (AHRS_state_of e now ahrs) =
     map (quat_at (from_rotation_matrix e (get_rotation_body_to_ned ahrs))) [0, 1, 2, 3]"
  by (cases "get_origin ahrs"; cases "get_position ahrs"; cases "get_relative_position_NED ahrs";
      cases "initialised ahrs"; cases "healthy ahrs")
     (simp_all add: AHRS_state_of_def AHRS_state_zero_def Let_def numeral_3_eq_3 numeral_Bit0)

lemma AHRS_state_of_accel_ef:
  "accel_ef (AHRS_state_of e now ahrs) = replicate 3 (vec_at (get_accel_ef ahrs) 0)"
  by (cases "get_origin ahrs"; cases "get_position ahrs"; cases "get_relative_position_NED ahrs";
      cases "initialised ahrs"; cases "healthy ahrs")
     (simp_all add: AHRS_state_of_def AHRS_state_zero_def Let_def numeral_3_eq_3)

lemma AHRS_state_of_gyro_rate:
  "gyro_rate (AHRS_state_of e now ahrs) = map (vec_at (get_gyro ahrs)) [0, 1, 2]"
  by (cases "get_origin ahrs"; cases "get_position ahrs"; cases "get_relative_position_NED ahrs";
      cases "initialised ahrs"; cases "healthy ahrs")
     (simp_all add: AHRS_state_of_def AHRS_state_zero_def Let_def numeral_3_eq_3)

lemma gyro_sample_of_version:
  "structure_version (gyro_sample_of e now inst dt v) = gyro_sample_version e"
  by (simp add: gyro_sample_of_def gyro_sample_zero_def Let_def)

lemma accel_sample_of_version:
  "structure_version (accel_sample_of e now inst dt v) = accel_sample_version e"
  by (simp add: accel_sample_of_def accel_sample_zero_def Let_def)


subsection \<open>What a scan leaves in the registry\<close>

lemma fst_after [simp]: "fst (after tr x) = tr @ fst x"
  by (cases x) simp

lemma snd_after [simp]: "snd (after tr x) = snd x"
  by (cases x) simp

lemma load_attempts_append [simp]: "load_attempts (xs @ ys) = load_attempts xs @ load_attempts ys"
  by (simp add: load_attempts_def List.map_filter_def)

lemma load_attempts_Nil [simp]: "load_attempts [] = []"
  by (simp add: load_attempts_def)

lemma load_attempts_Cons [simp]:
  "load_attempts (ev # tr) = (case loaded ev of None \<Rightarrow> load_attempts tr | Some p \<Rightarrow> p # load_attempts tr)"
  by (simp add: load_attempts_def split: option.split)

text \<open>A module in which no symbol of the remaining hooks resolves: one probe per hook, nothing else.\<close>

lemma module_scan_hooks_none:
  "\<forall>i \<in> set ids. dlsym e m (hook_names i) = None \<Longrightarrow>
   module_scan_hooks e m ids found r = (map (\<lambda>i. Dlsym m (hook_names i)) ids, Inr (found, r))"
  by (induction ids) simp_all

lemma module_scan_hooks_no_load:
  "load_attempts (fst (module_scan_hooks e m ids found r)) = []"
  by (induction ids arbitrary: found r) (simp_all split: option.split)

text \<open>What the loop leaves in each list: the resolved symbol of a visited hook in front.\<close>

lemma module_scan_hooks_lists:
  "module_scan_hooks e m ids found r = (tr, Inr (found', r')) \<Longrightarrow> distinct ids \<Longrightarrow>
   hooks r' X =
     (if X \<in> set ids then (case dlsym e m (hook_names X) of None \<Rightarrow> [] | Some s \<Rightarrow> [s]) else [])
     @ hooks r X"
proof (induction ids arbitrary: found r tr)
  case Nil
  then show ?case by simp
next
  case (Cons i ids)
  show ?case
  proof (cases "dlsym e m (hook_names i)")
    case None
    with Cons.prems obtain tr' where
      "module_scan_hooks e m ids found r = (tr', Inr (found', r'))"
      by (cases "module_scan_hooks e m ids found r") auto
    from Cons.IH [OF this] Cons.prems(2) None show ?thesis by auto
  next
    case (Some s)
    let ?r = "r\<lparr>hooks := (hooks r)(i := s # hooks r i), free_nodes := free_nodes r - 1\<rparr>"
    from Cons.prems Some have nz: "free_nodes r \<noteq> 0" by (auto split: if_splits)
    with Cons.prems Some obtain tr' where
      "module_scan_hooks e m ids True ?r = (tr', Inr (found', r'))"
      by (cases "module_scan_hooks e m ids True ?r") auto
    from Cons.IH [OF this] Cons.prems(2) Some show ?thesis by auto
  qed
qed

lemma distinct_hook_ids: "distinct hook_ids"
  by (simp add: hook_ids_def)

lemma set_hook_ids: "X \<in> set hook_ids"
  by (cases X) (simp_all add: hook_ids_def)

lemma module_scan_lists:
  assumes "module_scan e path r = (tr, Inr r')" and "dlopen e path = Some m"
  shows "hooks r' X = (case dlsym e m (hook_names X) of None \<Rightarrow> [] | Some s \<Rightarrow> [s]) @ hooks r X"
proof -
  from assms obtain tr' found' where
    "module_scan_hooks e m hook_ids False r = (tr', Inr (found', r'))"
    by (auto simp: module_scan_def split: prod.splits sum.splits if_splits)
  from module_scan_hooks_lists [OF this distinct_hook_ids, of X] show ?thesis
    by (simp add: set_hook_ids)
qed

lemma module_scan_prepends:
  assumes "module_scan e path r = (tr, Inr r')"
  shows "\<exists>pre. hooks r' X = pre @ hooks r X"
proof (cases "dlopen e path")
  case None
  with assms show ?thesis by (simp add: module_scan_def)
next
  case (Some m)
  from module_scan_lists [OF assms Some] show ?thesis by blast
qed

lemma module_scan_load_attempts:
  "load_attempts (fst (module_scan e path r)) = [path]"
proof (cases "dlopen e path")
  case None
  then show ?thesis by (simp add: module_scan_def)
next
  case (Some m)
  have "load_attempts (fst (module_scan_hooks e m hook_ids False r)) = []"
    by (rule module_scan_hooks_no_load)
  with Some show ?thesis
    by (auto simp: module_scan_def split: prod.splits sum.splits)
qed

subsection \<open>The entries that are scanned\<close>

lemma strrchr_absent: "c \<notin> set t \<Longrightarrow> c \<noteq> CHR 0x00 \<Longrightarrow> strrchr t c = None"
  by (induction t) auto

lemma strrchr_last: "c \<notin> set t \<Longrightarrow> c \<noteq> CHR 0x00 \<Longrightarrow> strrchr (pre @ c # t) c = Some (c # t)"
  by (induction pre) (simp_all add: strrchr_absent)

lemma strrchr_suffix: "strrchr s c = Some u \<Longrightarrow> suffix u s"
  by (induction s arbitrary: u) (auto split: option.splits if_splits simp: suffix_Cons)

text \<open>The test of the loop: the extension is \<^verbatim>\<open>.so\<close> exactly when the name ends in \<^verbatim>\<open>.so\<close>.\<close>

lemma extension_so: "strrchr d_name CHR ''.'' = Some ''.so'' \<longleftrightarrow> suffix ''.so'' d_name"
proof
  assume "strrchr d_name CHR ''.'' = Some ''.so''"
  then show "suffix ''.so'' d_name" by (rule strrchr_suffix)
next
  assume "suffix ''.so'' d_name"
  then obtain pre where "d_name = pre @ CHR ''.'' # ''so''" by (auto simp: suffix_def)
  then show "strrchr d_name CHR ''.'' = Some ''.so''"
    by (simp add: strrchr_last)
qed

lemma init_entries_skip:
  "\<not> (suffix ''.so'' d_name \<and> asprintf_ok e p d_name) \<Longrightarrow>
   init_entries e p (d_name # rest) r = init_entries e p rest r"
  using extension_so [of d_name] by (auto split: option.splits)

lemma init_entries_scan:
  "suffix ''.so'' d_name \<Longrightarrow> asprintf_ok e p d_name \<Longrightarrow>
   init_entries e p (d_name # rest) r =
     (case module_scan e (p @ ''/'' @ d_name) r of
        (tr, Inl err) \<Rightarrow> (tr, Inl err)
      | (tr, Inr r') \<Rightarrow> after tr (init_entries e p rest r'))"
  using extension_so [of d_name] by (auto split: option.splits)

declare init_entries.simps(2) [simp del]

lemma after_after [simp]: "after tr (after tr' x) = after (tr @ tr') x"
  by (cases x) simp

lemma after_Nil [simp]: "after [] x = x"
  by (cases x) simp

lemma init_entries_append:
  "init_entries e p (xs @ ys) r =
     (case init_entries e p xs r of
        (tr, Inl err) \<Rightarrow> (tr, Inl err)
      | (tr, Inr r1) \<Rightarrow> after tr (init_entries e p ys r1))"
proof (induction xs arbitrary: r)
  case Nil
  then show ?case by simp
next
  case (Cons d_name xs)
  show ?case
  proof (cases "suffix ''.so'' d_name \<and> asprintf_ok e p d_name")
    case False
    then show ?thesis
      using init_entries_skip [of d_name e p] Cons.IH by simp
  next
    case True
    then show ?thesis
      using init_entries_scan [of d_name e p] Cons.IH
      by (auto split: prod.splits sum.splits)
  qed
qed

lemma init_entries_prepends:
  "init_entries e p ns r = (tr, Inr r') \<Longrightarrow> \<exists>pre. hooks r' X = pre @ hooks r X"
proof (induction ns arbitrary: r tr)
  case Nil
  then show ?case by simp
next
  case (Cons d_name ns)
  show ?case
  proof (cases "suffix ''.so'' d_name \<and> asprintf_ok e p d_name")
    case False
    with Cons.prems have "init_entries e p ns r = (tr, Inr r')"
      by (simp add: init_entries_skip)
    then show ?thesis by (rule Cons.IH)
  next
    case True
    obtain t1 x where scan0: "module_scan e (p @ ''/'' @ d_name) r = (t1, x)"
      by (cases "module_scan e (p @ ''/'' @ d_name) r")
    with True Cons.prems obtain r1 where x: "x = Inr r1"
      by (cases x) (simp_all add: init_entries_scan)
    obtain t2 y where rest0: "init_entries e p ns r1 = (t2, y)"
      by (cases "init_entries e p ns r1")
    with True Cons.prems scan0 x have y: "y = Inr r'"
      by (simp add: init_entries_scan)
    from scan0 x have scan: "module_scan e (p @ ''/'' @ d_name) r = (t1, Inr r1)" by simp
    from rest0 y have rest: "init_entries e p ns r1 = (t2, Inr r')" by simp
    from module_scan_prepends [OF scan] obtain a where "hooks r1 X = a @ hooks r X" by blast
    moreover from Cons.IH [OF rest] obtain b where "hooks r' X = b @ hooks r1 X" by blast
    ultimately show ?thesis by simp
  qed
qed

lemma init_entries_load_attempts:
  "snd (init_entries e p ns r) = Inr r' \<Longrightarrow>
   load_attempts (fst (init_entries e p ns r)) =
     map (\<lambda>n. p @ ''/'' @ n) (filter (\<lambda>n. suffix ''.so'' n \<and> asprintf_ok e p n) ns)"
proof (induction ns arbitrary: r)
  case Nil
  then show ?case by simp
next
  case (Cons d_name ns)
  show ?case
  proof (cases "suffix ''.so'' d_name \<and> asprintf_ok e p d_name")
    case False
    with Cons show ?thesis by (simp add: init_entries_skip)
  next
    case True
    obtain t1 x where scan: "module_scan e (p @ ''/'' @ d_name) r = (t1, x)"
      by (cases "module_scan e (p @ ''/'' @ d_name) r")
    with True Cons.prems obtain r1 where x: "x = Inr r1"
      by (cases x) (auto simp: init_entries_scan)
    from Cons.prems True scan x have "snd (init_entries e p ns r1) = Inr r'"
      by (simp add: init_entries_scan)
    from Cons.IH [OF this] True scan x module_scan_load_attempts [of e "p @ ''/'' @ d_name" r]
    show ?thesis by (simp add: init_entries_scan)
  qed
qed

text \<open>With a node left for every hook the loop cannot panic.\<close>

lemma module_scan_hooks_returns:
  "length ids \<le> free_nodes r \<Longrightarrow>
   \<exists>tr found' r'. module_scan_hooks e m ids found r = (tr, Inr (found', r'))
      \<and> free_nodes r - length ids \<le> free_nodes r'"
proof (induction ids arbitrary: found r)
  case Nil
  then show ?case by simp
next
  case (Cons i ids)
  show ?case
  proof (cases "dlsym e m (hook_names i)")
    case None
    from Cons.prems have "length ids \<le> free_nodes r" by simp
    from Cons.IH [OF this, of found] None show ?thesis
      by (cases "module_scan_hooks e m ids found r") auto
  next
    case (Some s)
    let ?r = "r\<lparr>hooks := (hooks r)(i := s # hooks r i), free_nodes := free_nodes r - 1\<rparr>"
    from Cons.prems have "length ids \<le> free_nodes ?r" by simp
    from Cons.IH [OF this, of True] Some Cons.prems show ?thesis
      by (cases "module_scan_hooks e m ids True ?r") auto
  qed
qed

lemma module_scan_returns:
  assumes "5 \<le> free_nodes r"
  shows "\<exists>tr r'. module_scan e path r = (tr, Inr r') \<and> free_nodes r - 5 \<le> free_nodes r'"
proof (cases "dlopen e path")
  case None
  then show ?thesis by (simp add: module_scan_def)
next
  case (Some m)
  from assms have "length hook_ids \<le> free_nodes r" by (simp add: hook_ids_def)
  from module_scan_hooks_returns [OF this, of e m False] Some show ?thesis
    by (auto simp: module_scan_def hook_ids_def)
qed

lemma init_entries_returns:
  "5 * length ns \<le> free_nodes r \<Longrightarrow> \<exists>tr r'. init_entries e p ns r = (tr, Inr r')"
proof (induction ns arbitrary: r)
  case Nil
  then show ?case by simp
next
  case (Cons d_name ns)
  show ?case
  proof (cases "suffix ''.so'' d_name \<and> asprintf_ok e p d_name")
    case False
    from Cons.prems have "5 * length ns \<le> free_nodes r" by simp
    from Cons.IH [OF this] False show ?thesis by (simp add: init_entries_skip)
  next
    case True
    from Cons.prems have "5 \<le> free_nodes r" by simp
    from module_scan_returns [OF this, of e "p @ ''/'' @ d_name"] obtain t1 r1 where
      scan: "module_scan e (p @ ''/'' @ d_name) r = (t1, Inr r1)" and
      left: "free_nodes r - 5 \<le> free_nodes r1" by blast
    from left Cons.prems have "5 * length ns \<le> free_nodes r1" by simp
    from Cons.IH [OF this] obtain t2 r2 where "init_entries e p ns r1 = (t2, Inr r2)" by blast
    with True scan show ?thesis by (simp add: init_entries_scan)
  qed
qed

subsection \<open>The entry points a dispatch calls\<close>

lemma calls_Nil [simp]: "calls [] = []"
  by (simp add: calls_def)

lemma calls_Cons [simp]:
  "calls (ev # tr) = (case called ev of None \<Rightarrow> calls tr | Some fn \<Rightarrow> fn # calls tr)"
  by (simp add: calls_def split: option.split)

lemma calls_append [simp]: "calls (xs @ ys) = calls xs @ calls ys"
  by (simp add: calls_def List.map_filter_def)

lemma calls_entry_points:
  "calls (map (\<lambda>fn. Fn_setup_start fn t) xs) = xs"
  "calls (map (\<lambda>fn. Fn_setup_complete fn t) xs) = xs"
  "calls (map (\<lambda>fn. Fn_AHRS_update fn st) xs) = xs"
  "calls (map (\<lambda>fn. Fn_gyro_sample fn gs) xs) = xs"
  "calls (map (\<lambda>fn. Fn_accel_sample fn as) xs) = xs"
  by (induction xs) simp_all

lemma calls_AHRS_reads [simp]: "calls (AHRS_reads ahrs) = []"
  by (simp add: AHRS_reads_def)

text \<open>Every operation calls the entry points of its list, in the order of the list.\<close>

lemma calls_call_hook:
  "calls (fst (call_hook_setup_start now r)) = hooks r HOOK_SETUP_START"
  "calls (fst (call_hook_setup_complete now r)) = hooks r HOOK_SETUP_COMPLETE"
  "calls (fst (call_hook_AHRS_update e now ahrs r)) = hooks r HOOK_AHRS_UPDATE"
  "calls (fst (call_hook_gyro_sample e now inst dt v r)) = hooks r HOOK_GYRO_SAMPLE"
  "calls (fst (call_hook_accel_sample e now inst dt v r)) = hooks r HOOK_ACCEL_SAMPLE"
  by (simp_all add: call_hook_setup_start_def call_hook_setup_complete_def
        call_hook_AHRS_update_def call_hook_gyro_sample_def call_hook_accel_sample_def
        calls_entry_points Let_def)

lemma AHRS_update_snapshot:
  "Fn_AHRS_update fn st \<in> set (fst (call_hook_AHRS_update e now ahrs r)) \<Longrightarrow>
   st = AHRS_state_of e now ahrs"
  by (auto simp: call_hook_AHRS_update_def AHRS_reads_def Let_def split: if_splits)

lemma gyro_sample_snapshot:
  "Fn_gyro_sample fn st \<in> set (fst (call_hook_gyro_sample e now inst dt v r)) \<Longrightarrow>
   st = gyro_sample_of e now inst dt v"
  by (auto simp: call_hook_gyro_sample_def Let_def split: if_splits)

lemma accel_sample_snapshot:
  "Fn_accel_sample fn st \<in> set (fst (call_hook_accel_sample e now inst dt v r)) \<Longrightarrow>
   st = accel_sample_of e now inst dt v"
  by (auto simp: call_hook_accel_sample_def Let_def split: if_splits)

lemma demo_AHRS_update_trace:
  "fst (call_hook_AHRS_update demo_env now demo_ahrs demo_registry) =
     Micros64 # AHRS_reads demo_ahrs @ [Fn_AHRS_update 100 (AHRS_state_of demo_env now demo_ahrs)]"
  by (simp add: call_hook_AHRS_update_def demo_registry_def Let_def)

subsection \<open>Dispatch leaves the registry alone\<close>

text \<open>
  Claim C9. Every dispatch operation (\<^verbatim>\<open>call_hook_setup_start\<close>, \<^verbatim>\<open>call_hook_setup_complete\<close>,
  \<^verbatim>\<open>call_hook_AHRS_update\<close>, \<^verbatim>\<open>call_hook_gyro_sample\<close>, \<^verbatim>\<open>call_hook_accel_sample\<close>) leaves
  the registry unchanged: for every hook type the list of registrations after the call is
  the list before it, and so is the registry as a whole.
\<close>

theorem dispatch_leaves_registry:
  "(\<forall>X. hooks (snd (call_hook_setup_start now r)) X = hooks r X)
   \<and> (\<forall>X. hooks (snd (call_hook_setup_complete now r)) X = hooks r X)
   \<and> (\<forall>X. hooks (snd (call_hook_AHRS_update e now ahrs r)) X = hooks r X)
   \<and> (\<forall>X. hooks (snd (call_hook_gyro_sample e now inst dt v r)) X = hooks r X)
   \<and> (\<forall>X. hooks (snd (call_hook_accel_sample e now inst dt v r)) X = hooks r X)
   \<and> snd (call_hook_setup_start now r) = r
   \<and> snd (call_hook_setup_complete now r) = r
   \<and> snd (call_hook_AHRS_update e now ahrs r) = r
   \<and> snd (call_hook_gyro_sample e now inst dt v r) = r
   \<and> snd (call_hook_accel_sample e now inst dt v r) = r"
  by (simp add: call_hook_setup_start_def call_hook_setup_complete_def
        call_hook_AHRS_update_def call_hook_gyro_sample_def call_hook_accel_sample_def Let_def)

subsection \<open>The short circuit of the AHRS update\<close>

text \<open>
  Claim C3. Whenever the list of the AHRS-update hook is empty, \<^verbatim>\<open>call_hook_AHRS_update\<close>
  returns at once: it performs no effect at all (no entry point is called, no accessor of
  the navigation source is read, the clock is not read, no snapshot is built) and the
  registry is as before.
\<close>

theorem AHRS_update_short_circuit:
  "hooks r HOOK_AHRS_UPDATE = [] \<Longrightarrow> call_hook_AHRS_update e now ahrs r = ([], r)"
  by (simp add: call_hook_AHRS_update_def)

text \<open>The short circuit in the empty registry.\<close>

theorem AHRS_update_short_circuit_witness:
  "hooks empty_registry HOOK_AHRS_UPDATE = []
   \<and> call_hook_AHRS_update demo_env 7 demo_ahrs empty_registry = ([], empty_registry)"
proof -
  have h: "hooks empty_registry HOOK_AHRS_UPDATE = []"
    by (simp add: empty_registry_def)
  from AHRS_update_short_circuit [OF h, of demo_env 7 demo_ahrs] h show ?thesis by simp
qed

subsection \<open>The version field of a snapshot\<close>

text \<open>
  Claim C5. Every snapshot passed to a registered entry point carries the version constant
  of its type in \<^verbatim>\<open>structure_version\<close>: an AHRS snapshot \<^verbatim>\<open>AHRS_state_version\<close>, a gyro
  sample \<^verbatim>\<open>gyro_sample_version\<close>, an accel sample \<^verbatim>\<open>accel_sample_version\<close>, in every
  dispatch and every state of the registry.
\<close>

theorem snapshot_versions:
  "(\<forall>fn st. Fn_AHRS_update fn st \<in> set (fst (call_hook_AHRS_update e now ahrs r))
        \<longrightarrow> structure_version st = AHRS_state_version e)
   \<and> (\<forall>fn st. Fn_gyro_sample fn st \<in> set (fst (call_hook_gyro_sample e now inst dt v r))
        \<longrightarrow> structure_version st = gyro_sample_version e)
   \<and> (\<forall>fn st. Fn_accel_sample fn st \<in> set (fst (call_hook_accel_sample e now inst dt v r))
        \<longrightarrow> structure_version st = accel_sample_version e)"
proof (intro conjI allI impI)
  fix fn st
  assume "Fn_AHRS_update fn st \<in> set (fst (call_hook_AHRS_update e now ahrs r))"
  then have "st = AHRS_state_of e now ahrs" by (rule AHRS_update_snapshot)
  then show "structure_version st = AHRS_state_version e"
    by (simp add: AHRS_state_of_version)
next
  fix fn st
  assume "Fn_gyro_sample fn st \<in> set (fst (call_hook_gyro_sample e now inst dt v r))"
  then have "st = gyro_sample_of e now inst dt v" by (rule gyro_sample_snapshot)
  then show "structure_version st = gyro_sample_version e"
    by (simp add: gyro_sample_of_version)
next
  fix fn st
  assume "Fn_accel_sample fn st \<in> set (fst (call_hook_accel_sample e now inst dt v r))"
  then have "st = accel_sample_of e now inst dt v" by (rule accel_sample_snapshot)
  then show "structure_version st = accel_sample_version e"
    by (simp add: accel_sample_of_version)
qed

text \<open>The snapshot that the single AHRS hook of the small world receives.\<close>

theorem snapshot_versions_witness:
  "Fn_AHRS_update 100 (AHRS_state_of demo_env 7 demo_ahrs)
     \<in> set (fst (call_hook_AHRS_update demo_env 7 demo_ahrs demo_registry))
   \<and> structure_version (AHRS_state_of demo_env 7 demo_ahrs) = 1"
proof -
  have m: "Fn_AHRS_update 100 (AHRS_state_of demo_env 7 demo_ahrs)
     \<in> set (fst (call_hook_AHRS_update demo_env 7 demo_ahrs demo_registry))"
    by (simp add: demo_AHRS_update_trace)
  from snapshot_versions [of demo_env 7 demo_ahrs demo_registry, THEN conjunct1, rule_format, OF m]
  have "structure_version (AHRS_state_of demo_env 7 demo_ahrs) = AHRS_state_version demo_env" .
  with m show ?thesis by (simp add: demo_env_def)
qed

subsection \<open>The altitude in single precision\<close>

lemma AHRS_state_of_origin_absent:
  "get_origin ahrs = None \<Longrightarrow>
   \<not> origin_initialised (AHRS_state_of e now ahrs)
   \<and> origin_latitude (AHRS_state_of e now ahrs) = 0
   \<and> origin_longitude (AHRS_state_of e now ahrs) = 0
   \<and> origin_altitude (AHRS_state_of e now ahrs) = 0"
  by (cases "get_position ahrs"; cases "get_relative_position_NED ahrs";
      cases "initialised ahrs"; cases "healthy ahrs")
     (simp_all add: AHRS_state_of_def AHRS_state_zero_def Let_def)

lemma AHRS_state_of_origin_present:
  "get_origin ahrs = Some loc \<Longrightarrow>
   origin_initialised (AHRS_state_of e now ahrs)
   \<and> origin_latitude (AHRS_state_of e now ahrs) = lat loc
   \<and> origin_longitude (AHRS_state_of e now ahrs) = lng loc
   \<and> origin_altitude (AHRS_state_of e now ahrs) = f32_mul (f32_of_int32 (alt loc)) float_0_01"
  by (cases "get_position ahrs"; cases "get_relative_position_NED ahrs";
      cases "initialised ahrs"; cases "healthy ahrs")
     (simp_all add: AHRS_state_of_def AHRS_state_zero_def Let_def)

lemma bit_length_numeral [simp]:
  "bit_length (numeral k) = Suc (bit_length (numeral k div 2))"
  by (subst bit_length.simps) simp

lemma bit_length_0 [simp]: "bit_length 0 = 0"
  by (subst bit_length.simps) simp

lemma bit_length_1 [simp]: "bit_length (Suc 0) = 1"
  by (subst bit_length.simps) simp

lemma five_centimetres: "f32_mul (f32_of_int32 5) float_0_01 = 0x3D4CCCCC"
  by (simp add: f32_mul_def f32_of_int32_def f32_round_def round_mant_def f32_pack_def f32_exp_def
        f32_frac_def f32_sign_def f32_mant_def f32_scale_def float_0_01_def Let_def)

lemma value_3D4CCCCC: "f32_value 0x3D4CCCCC = 13421772 / 2 ^ 28"
  by (simp add: f32_value_def f32_exp_def f32_frac_def f32_sign_def f32_mant_def f32_scale_def)

lemma value_3D4CCCCD: "f32_value 0x3D4CCCCD = 13421773 / 2 ^ 28"
  by (simp add: f32_value_def f32_exp_def f32_frac_def f32_sign_def f32_mant_def f32_scale_def)

subsection \<open>The error of the two roundings\<close>

lemma bit_length_bounds:
  "0 < m \<Longrightarrow> 2 ^ (bit_length m - 1) \<le> m \<and> m < 2 ^ bit_length m"
proof (induction m rule: bit_length.induct)
  case (1 n)
  show ?case
  proof (cases "n div 2 = 0")
    case True
    with "1.prems" have "n = 1" by auto
    then show ?thesis by simp
  next
    case False
    then have pos: "0 < n div 2" by simp
    from "1.prems" have n0: "n \<noteq> 0" by simp
    from "1.IH" [OF n0 pos] have
      lo: "2 ^ (bit_length (n div 2) - 1) \<le> n div 2" and hi: "n div 2 < 2 ^ bit_length (n div 2)"
      by simp_all
    from pos have blpos: "0 < bit_length (n div 2)"
      by (subst bit_length.simps) simp
    have bl: "bit_length n = Suc (bit_length (n div 2))"
      using n0 by (subst bit_length.simps) simp
    from lo have "2 * 2 ^ (bit_length (n div 2) - 1) \<le> n" by linarith
    moreover from blpos have "(2::nat) * 2 ^ (bit_length (n div 2) - 1) = 2 ^ bit_length (n div 2)"
      by (cases "bit_length (n div 2)") simp_all
    ultimately have "2 ^ (bit_length n - 1) \<le> n" by (simp add: bl)
    moreover from hi have "n < 2 ^ bit_length n" by (simp add: bl)
    ultimately show ?thesis by simp
  qed
qed

lemma bit_length_pos: "0 < m \<Longrightarrow> 0 < bit_length m"
  by (subst bit_length.simps) simp

lemma bit_length_le: "m < 2 ^ n \<Longrightarrow> bit_length m \<le> n"
proof (rule ccontr)
  assume m: "m < 2 ^ n" and "\<not> bit_length m \<le> n"
  then have n: "n \<le> bit_length m - 1" and pos: "0 < m"
    by (auto intro: ccontr)
  from bit_length_bounds [OF pos] have "2 ^ (bit_length m - 1) \<le> m" by simp
  moreover from n have "(2::nat) ^ n \<le> 2 ^ (bit_length m - 1)"
    by (rule power_increasing) simp
  ultimately show False using m by linarith
qed

lemma bit_length_ge: "2 ^ n \<le> m \<Longrightarrow> n < bit_length m"
proof (rule ccontr)
  assume m: "2 ^ n \<le> m" and "\<not> n < bit_length m"
  then have n: "bit_length m \<le> n" by simp
  from m have pos: "0 < m" by (metis gr0I not_less_eq_eq le_0_eq power_eq_0_iff zero_neq_numeral)
  from bit_length_bounds [OF pos] have "m < 2 ^ bit_length m" by simp
  moreover from n have "(2::nat) ^ bit_length m \<le> 2 ^ n"
    by (rule power_increasing) simp
  ultimately show False using m by linarith
qed

lemma div_low_part: "r < d \<Longrightarrow> (r + a * d) div d = (a::nat)"
  by simp

lemma mod_low_part: "r < d \<Longrightarrow> (r + a * d) mod d = (r::nat)"
  by simp

lemma div_high_bit: "x < d \<Longrightarrow> (d + x) div d = (1::nat)"
  by simp

lemma unat_f32_pack:
  assumes "ex < 256" and "fr < 2 ^ 23"
  shows "unat (f32_pack s ex fr) = (if s then 2 ^ 31 else 0) + 2 ^ 23 * ex + fr"
proof -
  from assms have "2 ^ 23 * ex + fr < 2 ^ 31" by simp
  then have "(if s then 2 ^ 31 else 0) + 2 ^ 23 * ex + fr < (2::nat) ^ 32" by simp
  then have "((if s then 2 ^ 31 else 0) + 2 ^ 23 * ex + fr) mod 2 ^ LENGTH(32)
      = (if s then 2 ^ 31 else 0) + 2 ^ 23 * ex + fr"
    by simp
  then show ?thesis
    by (simp only: f32_pack_def unat_of_nat)
qed

lemma f32_exp_pack:
  assumes "ex < 256" and "fr < 2 ^ 23"
  shows "f32_exp (f32_pack s ex fr) = ex"
proof -
  have "f32_exp (f32_pack s ex fr) = (unat (f32_pack s ex fr) div 2 ^ 23) mod 2 ^ 8"
    by (simp only: f32_exp_def unsigned_take_bit_eq unat_drop_bit_eq)
       (simp only: take_bit_eq_mod drop_bit_eq_div)
  also have "unat (f32_pack s ex fr) = fr + ((if s then 2 ^ 8 else 0) + ex) * 2 ^ 23"
    by (simp add: unat_f32_pack [OF assms])
  also have "(fr + ((if s then 2 ^ 8 else 0) + ex) * 2 ^ 23) div 2 ^ 23
      = (if s then 2 ^ 8 else 0) + ex"
    using assms(2) by (rule div_low_part)
  also have "((if s then 2 ^ 8 else 0) + ex) mod 2 ^ 8 = ex"
    using assms(1) by simp
  finally show ?thesis .
qed

lemma f32_frac_pack:
  assumes "ex < 256" and "fr < 2 ^ 23"
  shows "f32_frac (f32_pack s ex fr) = fr"
proof -
  have "f32_frac (f32_pack s ex fr) = unat (f32_pack s ex fr) mod 2 ^ 23"
    by (simp only: f32_frac_def unsigned_take_bit_eq) (simp only: take_bit_eq_mod)
  also have "unat (f32_pack s ex fr) = fr + ((if s then 2 ^ 8 else 0) + ex) * 2 ^ 23"
    by (simp add: unat_f32_pack [OF assms])
  also have "(fr + ((if s then 2 ^ 8 else 0) + ex) * 2 ^ 23) mod 2 ^ 23 = fr"
    using assms(2) by (rule mod_low_part)
  finally show ?thesis .
qed

lemma f32_sign_pack:
  assumes "ex < 256" and "fr < 2 ^ 23"
  shows "f32_sign (f32_pack s ex fr) = s"
proof -
  have "f32_sign (f32_pack s ex fr) = bit (unat (f32_pack s ex fr)) 31"
    by (simp only: f32_sign_def bit_unsigned_iff) simp
  also have "\<dots> = odd (unat (f32_pack s ex fr) div 2 ^ 31)"
    by (simp only: bit_iff_odd)
  also from assms have "2 ^ 23 * ex + fr < 2 ^ 31" by simp
  then have "((if s then 2 ^ 31 else 0) + 2 ^ 23 * ex + fr) div 2 ^ 31 = (if s then 1 else (0::nat))"
    using div_high_bit [of "2 ^ 23 * ex + fr" "2 ^ 31"] by (cases s) (simp_all add: add.assoc)
  then have "unat (f32_pack s ex fr) div 2 ^ 31 = (if s then 1 else 0)"
    by (simp only: unat_f32_pack [OF assms])
  finally show ?thesis by simp
qed

lemma round_div_error:
  fixes m k :: nat
  defines "mant0 \<equiv> m div 2 ^ k" and "r \<equiv> m mod 2 ^ k"
  defines "mant1 \<equiv> (if 2 ^ k < 2 * r \<or> (2 * r = 2 ^ k \<and> odd mant0) then mant0 + 1 else mant0)"
  shows "2 * \<bar>int mant1 * 2 ^ k - int m\<bar> \<le> 2 ^ k"
proof -
  have "m = mant0 * 2 ^ k + r"
    unfolding mant0_def r_def by (rule div_mult_mod_eq [symmetric])
  then have "int m = int (mant0 * 2 ^ k + r)" by simp
  then have m: "int m = int mant0 * 2 ^ k + int r" by simp
  have "r < 2 ^ k"
    unfolding r_def by simp
  then have "int r < int (2 ^ k)" by (simp only: of_nat_less_iff)
  then have r: "int r < 2 ^ k" by simp
  show ?thesis
  proof (cases "2 ^ k < 2 * r \<or> (2 * r = 2 ^ k \<and> odd mant0)")
    case True
    then have "(2::nat) ^ k \<le> 2 * r" by auto
    then have "(2::int) ^ k \<le> 2 * int r"
      by (metis of_nat_le_iff of_nat_mult of_nat_numeral of_nat_power)
    moreover from True have "int mant1 * 2 ^ k - int m = 2 ^ k - int r"
      by (simp add: mant1_def m algebra_simps)
    ultimately show ?thesis using r by simp
  next
    case False
    then have "2 * r \<le> (2::nat) ^ k" by auto
    then have "2 * int r \<le> (2::int) ^ k"
      by (metis of_nat_le_iff of_nat_mult of_nat_numeral of_nat_power)
    moreover from False have "int mant1 * 2 ^ k - int m = - int r"
      by (simp add: mant1_def m)
    ultimately show ?thesis by simp
  qed
qed

lemma div_pow2_bounds:
  fixes m k :: nat
  assumes "2 ^ (k + 23) \<le> m" and "m < 2 ^ (k + 24)"
  shows "2 ^ 23 \<le> m div 2 ^ k" and "m div 2 ^ k < 2 ^ 24"
proof -
  have "(2::nat) ^ 23 * 2 ^ k \<le> m" using assms(1) by (simp add: power_add mult.commute)
  then show "2 ^ 23 \<le> m div 2 ^ k"
    by (simp add: less_eq_div_iff_mult_less_eq)
  have "m < 2 ^ 24 * 2 ^ k" using assms(2) by (simp add: power_add mult.commute)
  then show "m div 2 ^ k < 2 ^ 24"
    by (simp add: div_less_iff_less_mult)
qed

lemma two_powi_pos: "(0::rat) < 2 powi z"
  by (simp add: power_int_def)

lemma two_powi_add: "(2::rat) powi (a + b) = 2 powi a * 2 powi b"
  by (rule power_int_add) simp

lemma round_mant_normal:
  assumes pos: "0 < m" and lo: "- 149 \<le> e + int (bit_length m) - 24"
  shows "\<exists>M Q. round_mant m e = (M, Q) \<and> 2 ^ 23 \<le> M \<and> M < 2 ^ 24
           \<and> e + int (bit_length m) - 24 \<le> Q \<and> Q \<le> e + int (bit_length m) - 23
           \<and> 2 * \<bar>of_nat M * 2 powi Q - of_nat m * 2 powi e\<bar>
               \<le> (2 powi (e + int (bit_length m) - 24) :: rat)"
proof -
  define bl where "bl = bit_length m"
  define q0 where "q0 = e + int bl - 24"
  from lo have q: "max q0 (- 149) = q0" by (simp add: q0_def bl_def)
  from bit_length_bounds [OF pos] have mlo: "2 ^ (bl - 1) \<le> m" and mhi: "m < 2 ^ bl"
    by (simp_all add: bl_def)
  from bit_length_pos [OF pos] have blpos: "0 < bl" by (simp add: bl_def)
  show ?thesis
  proof (cases "q0 \<le> e")
    case True
    define d where "d = nat (e - q0)"
    from True have d: "bl + d = 24" by (simp add: d_def q0_def)
    have "m * 2 ^ d < 2 ^ bl * 2 ^ d" using mhi by simp
    also have "\<dots> = 2 ^ 24" using d by (simp flip: power_add)
    finally have hi: "m * 2 ^ d < 2 ^ 24" .
    from blpos d have "(bl - 1) + d = 23" by simp
    then have "(2::nat) ^ 23 = 2 ^ (bl - 1) * 2 ^ d" by (simp flip: power_add)
    also have "\<dots> \<le> m * 2 ^ d" using mlo by simp
    finally have lo': "2 ^ 23 \<le> m * 2 ^ d" .
    from True have k0: "nat (q0 - e) = 0" by simp
    have rm: "round_mant m e = (m * 2 ^ d, q0)"
      using True hi
      by (simp add: round_mant_def Let_def q k0 d_def flip: bl_def q0_def)
    have "int d + q0 = e" using True by (simp add: d_def)
    then have "(2::rat) powi e = 2 powi (int d + q0)" by simp
    also have "\<dots> = 2 powi (int d) * 2 powi q0" by (rule two_powi_add)
    finally have "(2::rat) powi e = 2 powi (int d) * 2 powi q0" .
    then have "of_nat (m * 2 ^ d) * 2 powi q0 = (of_nat m * 2 powi e :: rat)"
      by simp
    then have "\<bar>of_nat (m * 2 ^ d) * 2 powi q0 - of_nat m * 2 powi e :: rat\<bar> = 0"
      by (simp only: diff_self abs_zero)
    then have "2 * \<bar>of_nat (m * 2 ^ d) * 2 powi q0 - of_nat m * 2 powi e\<bar> \<le> (2 powi q0 :: rat)"
      using two_powi_pos [of q0] by (simp only: mult_zero_right less_imp_le)
    with rm lo' hi show ?thesis
      by (simp add: q0_def bl_def)
  next
    case False
    define k where "k = nat (q0 - e)"
    from False have kpos: "0 < k" and qk: "q0 = int k + e" by (simp_all add: k_def)
    then have bl: "bl = k + 24" by (simp add: q0_def)
    define mant0 where "mant0 = m div 2 ^ k"
    define r where "r = m mod 2 ^ k"
    define mant1 where
      "mant1 = (if 2 ^ k < 2 * r \<or> (2 * r = 2 ^ k \<and> odd mant0) then mant0 + 1 else mant0)"
    from mlo have "2 ^ (k + 23) \<le> m" by (simp add: bl add.commute)
    moreover from mhi have "m < 2 ^ (k + 24)" by (simp add: bl)
    ultimately have m0: "2 ^ 23 \<le> mant0" "mant0 < 2 ^ 24"
      unfolding mant0_def by (rule div_pow2_bounds)+
    then have m1: "2 ^ 23 \<le> mant1" "mant1 \<le> 2 ^ 24"
      by (simp_all add: mant1_def)
    have err: "2 * \<bar>int mant1 * 2 ^ k - int m\<bar> \<le> 2 ^ k"
      unfolding mant1_def mant0_def r_def by (rule round_div_error)
    have rm: "round_mant m e = (if mant1 = 2 ^ 24 then (2 ^ 23, q0 + 1) else (mant1, q0))"
      using False
      by (simp add: round_mant_def Let_def q mant1_def mant0_def r_def k_def
            flip: bl_def q0_def)
    define M where "M = (if mant1 = 2 ^ 24 then 2 ^ 23 else mant1)"
    define Q where "Q = (if mant1 = 2 ^ 24 then q0 + 1 else q0)"
    from rm have rm': "round_mant m e = (M, Q)" by (simp add: M_def Q_def)
    from m1 have M: "2 ^ 23 \<le> M" "M < 2 ^ 24" by (simp_all add: M_def)
    have Q: "q0 \<le> Q" "Q \<le> q0 + 1" by (simp_all add: Q_def)
    have same: "(of_nat M * 2 powi Q :: rat) = of_nat mant1 * 2 powi q0"
      by (simp add: M_def Q_def two_powi_add)
    have split: "(2::rat) powi q0 = 2 ^ k * 2 powi e"
      by (simp add: qk two_powi_add)
    have "(of_nat mant1 * 2 powi q0 - of_nat m * 2 powi e :: rat)
        = of_int (int mant1 * 2 ^ k - int m) * 2 powi e"
      by (simp add: split algebra_simps)
    then have "2 * \<bar>of_nat mant1 * 2 powi q0 - of_nat m * 2 powi e :: rat\<bar>
        = of_int (2 * \<bar>int mant1 * 2 ^ k - int m\<bar>) * 2 powi e"
      using two_powi_pos [of e] by (simp add: abs_mult)
    also have "\<dots> \<le> of_int (2 ^ k) * 2 powi e"
      using err two_powi_pos [of e]
      by (intro mult_right_mono) (simp_all only: of_int_le_iff less_imp_le)
    also have "\<dots> = 2 powi q0" by (simp add: split)
    finally have "2 * \<bar>of_nat M * 2 powi Q - of_nat m * 2 powi e\<bar> \<le> (2 powi q0 :: rat)"
      by (simp only: same)
    with rm' M Q show ?thesis
      by (simp add: q0_def bl_def)
  qed
qed

lemma f32_round_normal:
  assumes pos: "0 < m" and lo: "- 149 \<le> e + int (bit_length m) - 24"
      and hi: "e + int (bit_length m) \<le> 127"
  shows "\<exists>M Q. f32_sign (f32_round s m e) = s \<and> f32_exp (f32_round s m e) \<noteq> 255
           \<and> f32_mant (f32_round s m e) = M \<and> f32_scale (f32_round s m e) = Q
           \<and> 2 ^ 23 \<le> M \<and> M < 2 ^ 24
           \<and> e + int (bit_length m) - 24 \<le> Q \<and> Q \<le> e + int (bit_length m) - 23
           \<and> 2 * \<bar>of_nat M * 2 powi Q - of_nat m * 2 powi e\<bar>
               \<le> (2 powi (e + int (bit_length m) - 24) :: rat)"
proof -
  from round_mant_normal [OF pos lo] obtain M Q where
    rm: "round_mant m e = (M, Q)" and M: "2 ^ 23 \<le> M" "M < 2 ^ 24" and
    Q: "e + int (bit_length m) - 24 \<le> Q" "Q \<le> e + int (bit_length m) - 23" and
    err: "2 * \<bar>of_nat M * 2 powi Q - of_nat m * 2 powi e\<bar>
               \<le> (2 powi (e + int (bit_length m) - 24) :: rat)"
    by blast
  define ex where "ex = nat (Q + 150)"
  define fr where "fr = M - 2 ^ 23"
  from Q lo hi have ex: "0 < ex" "ex < 255" "int ex - 150 = Q" by (simp_all add: ex_def)
  from M have fr: "fr < 2 ^ 23" "2 ^ 23 + fr = M" by (simp_all add: fr_def)
  from Q hi have "\<not> 105 \<le> Q" by simp
  with pos rm M have r: "f32_round s m e = f32_pack s ex fr"
    by (simp add: f32_round_def ex_def fr_def)
  from ex have ex256: "ex < 256" by simp
  have "f32_exp (f32_pack s ex fr) = ex" "f32_frac (f32_pack s ex fr) = fr"
    "f32_sign (f32_pack s ex fr) = s"
    using ex256 fr(1) by (rule f32_exp_pack f32_frac_pack f32_sign_pack)+
  with ex fr have "f32_sign (f32_round s m e) = s" "f32_exp (f32_round s m e) \<noteq> 255"
    "f32_mant (f32_round s m e) = M" "f32_scale (f32_round s m e) = Q"
    by (simp_all add: r f32_mant_def f32_scale_def)
  with M Q err show ?thesis by blast
qed

text \<open>A rounding error of half a unit in the last place is at most \<open>2 ^ - 24\<close> of the number.\<close>

lemma half_ulp_relative:
  assumes "0 < m"
  shows "(2 powi (e + int (bit_length m) - 24) :: rat) \<le> of_nat m * 2 powi e / 2 ^ 23"
proof -
  from bit_length_bounds [OF assms] have "2 ^ (bit_length m - 1) \<le> m" by simp
  then have "(of_nat (2 ^ (bit_length m - 1)) :: rat) \<le> of_nat m"
    by (simp only: of_nat_le_iff)
  then have m: "(2 ^ (bit_length m - 1) :: rat) \<le> of_nat m" by simp
  from bit_length_pos [OF assms] have "e + int (bit_length m) - 24 = int (bit_length m - 1) + (e + (- 23))"
    by simp
  then have "(2 powi (e + int (bit_length m) - 24) :: rat)
      = 2 powi (int (bit_length m - 1)) * (2 powi e * 2 powi (- 23))"
    by (simp only: two_powi_add)
  also have "\<dots> = 2 ^ (bit_length m - 1) * (2 powi e / 2 ^ 23)"
    by (simp add: power_int_minus_divide)
  also have "\<dots> \<le> of_nat m * (2 powi e / 2 ^ 23)"
    using m two_powi_pos [of e] by (intro mult_right_mono) simp_all
  finally show ?thesis by simp
qed

lemma two_roundings:
  fixes n A V :: rat
  assumes n: "0 \<le> n"
      and A: "\<bar>A - n\<bar> \<le> n / 2 ^ 24"
      and V: "\<bar>V - A * (10737418 / 2 ^ 30)\<bar> \<le> A * (10737418 / 2 ^ 30) / 2 ^ 24"
  shows "\<bar>V - n / 100\<bar> \<le> n / 100 / 2 ^ 22"
proof -
  define c :: rat where "c = 10737418 / 2 ^ 30"
  define u :: rat where "u = 1 + 1 / 2 ^ 24"
  define l :: rat where "l = 1 - 1 / 2 ^ 24"
  have c: "0 < c" and u: "0 < u" and l: "0 < l" by (simp_all add: c_def u_def l_def)
  have nu: "n * u = n + n / 2 ^ 24" and nl: "n * l = n - n / 2 ^ 24"
    by (simp_all add: u_def l_def algebra_simps)
  from A have A1: "A \<le> n * u" and A2: "n * l \<le> A"
    unfolding nu nl by linarith+
  from n l A2 have A0: "0 \<le> A"
    by (meson mult_nonneg_nonneg less_imp_le order_trans)
  define P where "P = A * c"
  from V have V': "\<bar>V - P\<bar> \<le> P / 2 ^ 24" by (simp only: P_def c_def)
  have Pu: "P * u = P + P / 2 ^ 24" and Pl: "P * l = P - P / 2 ^ 24"
    by (simp_all add: u_def l_def algebra_simps)
  from V' have "V \<le> P * u" and "P * l \<le> V"
    unfolding Pu Pl by linarith+
  then have V1: "V \<le> (A * c) * u" and V2: "(A * c) * l \<le> V"
    by (simp_all only: P_def)
  have "(A * c) * u \<le> ((n * u) * c) * u"
    using A1 c u by (intro mult_right_mono) simp_all
  with V1 have "V \<le> n * (u * c * u)" by (simp add: mult.assoc)
  moreover have "u * c * u \<le> 1 / 100 * (1 + 1 / 2 ^ 22)"
    by (simp add: u_def c_def)
  then have "n * (u * c * u) \<le> n * (1 / 100 * (1 + 1 / 2 ^ 22))"
    using n by (rule mult_left_mono)
  ultimately have hi: "V \<le> n * (1 / 100 * (1 + 1 / 2 ^ 22))" by simp
  have "((n * l) * c) * l \<le> (A * c) * l"
    using A2 c l by (intro mult_right_mono) simp_all
  with V2 have "n * (l * c * l) \<le> V" by (simp add: mult.assoc)
  moreover have "1 / 100 * (1 - 1 / 2 ^ 22) \<le> l * c * l"
    by (simp add: l_def c_def)
  then have "n * (1 / 100 * (1 - 1 / 2 ^ 22)) \<le> n * (l * c * l)"
    using n by (rule mult_left_mono)
  ultimately have lo: "n * (1 / 100 * (1 - 1 / 2 ^ 22)) \<le> V" by simp
  have e1: "n * (1 / 100 * (1 + 1 / 2 ^ 22)) = n / 100 + n / 100 / 2 ^ 22"
    by (simp add: algebra_simps)
  have e2: "n * (1 / 100 * (1 - 1 / 2 ^ 22)) = n / 100 - n / 100 / 2 ^ 22"
    by (simp add: algebra_simps)
  from hi have "V - n / 100 \<le> n / 100 / 2 ^ 22"
    unfolding e1 by (simp only: diff_le_eq add.commute)
  moreover from lo have "- (V - n / 100) \<le> n / 100 / 2 ^ 22"
    unfolding e2 by (simp only: minus_diff_eq diff_le_eq)
  ultimately show ?thesis
    by (simp only: abs_le_iff)
qed

lemma float_0_01_fields:
  "f32_exp float_0_01 = 120" "f32_sign float_0_01 = False"
  "f32_mant float_0_01 = 10737418" "f32_scale float_0_01 = - 30"
  by (simp_all add: float_0_01_def f32_exp_def f32_frac_def f32_sign_def f32_mant_def
        f32_scale_def)

lemma f32_zero_fields:
  "f32_exp 0 = 0" "f32_mant 0 = 0" "f32_sign 0 = False"
  by (simp_all add: f32_exp_def f32_frac_def f32_mant_def f32_sign_def)

lemma centimetres_to_metres:
  "f32_exp (f32_mul (f32_of_int32 x) float_0_01) \<noteq> 255
   \<and> \<bar>f32_value (f32_mul (f32_of_int32 x) float_0_01) - of_int (sint x) / 100\<bar>
       \<le> \<bar>of_int (sint x)\<bar> / 100 / 2 ^ 22"
proof -
  define n where "n = nat \<bar>sint x\<bar>"
  define s where "s = (sint x < 0)"
  show ?thesis
  proof (cases "n = 0")
    case True
    then have z: "sint x = 0" by (simp add: n_def)
    then have "f32_of_int32 x = 0"
      by (simp add: f32_of_int32_def f32_round_def f32_pack_def)
    then have "f32_mul (f32_of_int32 x) float_0_01 = 0"
      by (simp add: f32_mul_def f32_zero_fields float_0_01_fields f32_round_def f32_pack_def)
    then show ?thesis
      by (simp add: z f32_value_def f32_zero_fields)
  next
    case False
    then have pos: "0 < n" by simp
    have "sint x < 2 ^ 31" "- (2 ^ 31) \<le> sint x"
      using sint_lt [of x] sint_ge [of x] by simp_all
    then have "n < 2 ^ 32" by (simp add: n_def)
    then have bl: "bit_length n \<le> 32" by (rule bit_length_le)
    from bl have lo1: "- 149 \<le> 0 + int (bit_length n) - 24"
      and hi1: "0 + int (bit_length n) \<le> 127" by simp_all
    define a where "a = f32_of_int32 x"
    have a: "a = f32_round s n 0" by (simp add: a_def f32_of_int32_def s_def n_def)
    from f32_round_normal [OF pos lo1 hi1, of s] obtain M1 Q1 where
      a_sign: "f32_sign a = s" and a_exp: "f32_exp a \<noteq> 255" and
      a_mant: "f32_mant a = M1" and a_scale: "f32_scale a = Q1" and
      M1: "2 ^ 23 \<le> M1" "M1 < 2 ^ 24" and
      Q1: "0 + int (bit_length n) - 24 \<le> Q1" "Q1 \<le> 0 + int (bit_length n) - 23" and
      err1: "2 * \<bar>of_nat M1 * 2 powi Q1 - of_nat n * 2 powi 0\<bar>
               \<le> (2 powi (0 + int (bit_length n) - 24) :: rat)"
      unfolding a by blast
    define m2 where "m2 = M1 * 10737418"
    define e2 where "e2 = Q1 + (- 30)"
    have mul: "f32_mul a float_0_01 = f32_round s m2 e2"
      using a_exp by (simp add: f32_mul_def float_0_01_fields a_sign a_mant a_scale m2_def e2_def)
    from M1 have "2 ^ 46 \<le> m2" "m2 < 2 ^ 48" by (simp_all add: m2_def)
    then have b2: "46 < bit_length m2" "bit_length m2 \<le> 48"
      by (simp_all add: bit_length_ge bit_length_le)
    from M1 have pos2: "0 < m2" by (simp add: m2_def)
    from bit_length_pos [OF pos] have "0 < bit_length n" .
    with Q1 bl b2 have lo2: "- 149 \<le> e2 + int (bit_length m2) - 24"
      and hi2: "e2 + int (bit_length m2) \<le> 127"
      by (simp_all add: e2_def)
    define v where "v = f32_mul a float_0_01"
    from f32_round_normal [OF pos2 lo2 hi2, of s] obtain M2 Q2 where
      v_sign: "f32_sign v = s" and v_exp: "f32_exp v \<noteq> 255" and
      v_mant: "f32_mant v = M2" and v_scale: "f32_scale v = Q2" and
      err2: "2 * \<bar>of_nat M2 * 2 powi Q2 - of_nat m2 * 2 powi e2\<bar>
               \<le> (2 powi (e2 + int (bit_length m2) - 24) :: rat)"
      unfolding v_def mul by blast
    define A :: rat where "A = of_nat M1 * 2 powi Q1"
    define V :: rat where "V = of_nat M2 * 2 powi Q2"
    have "2 * \<bar>A - of_nat n\<bar> \<le> of_nat n * 2 powi 0 / 2 ^ 23"
      using err1 half_ulp_relative [OF pos, of 0] by (simp add: A_def)
    then have A: "\<bar>A - of_nat n\<bar> \<le> of_nat n / 2 ^ 24" by simp
    have "(2::rat) powi e2 = 2 powi Q1 * 2 powi (- 30)"
      unfolding e2_def by (rule two_powi_add)
    then have "(2::rat) powi e2 = 2 powi Q1 / 2 ^ 30"
      by (simp add: power_int_minus_divide)
    then have P: "(of_nat m2 * 2 powi e2 :: rat) = A * (10737418 / 2 ^ 30)"
      by (simp add: m2_def A_def)
    have "2 * \<bar>V - of_nat m2 * 2 powi e2\<bar> \<le> of_nat m2 * 2 powi e2 / 2 ^ 23"
      using err2 half_ulp_relative [OF pos2, of e2] unfolding V_def by (rule order_trans)
    then have "\<bar>V - A * (10737418 / 2 ^ 30)\<bar> \<le> A * (10737418 / 2 ^ 30) / 2 ^ 24"
      unfolding P by simp
    with A have bound: "\<bar>V - of_nat n / 100\<bar> \<le> of_nat n / 100 / 2 ^ 22"
      by (intro two_roundings) simp_all
    have val: "f32_value v = (if s then - 1 else 1) * V"
      by (simp add: f32_value_def v_sign v_mant v_scale V_def)
    have "sint x = (if s then - 1 else 1) * int n"
      by (simp add: s_def n_def)
    then have "(of_int (sint x) :: rat) = of_int ((if s then - 1 else 1) * int n)"
      by (simp only:)
    also have "\<dots> = (if s then - 1 else 1) * of_nat n"
      by (cases s) simp_all
    finally have x: "(of_int (sint x) :: rat) = (if s then - 1 else 1) * of_nat n" .
    have "\<bar>f32_value v - of_int (sint x) / 100\<bar> = \<bar>V - of_nat n / 100\<bar>"
      unfolding val x by (cases s) (simp_all add: abs_minus_commute)
    moreover have "\<bar>of_int (sint x) :: rat\<bar> = of_nat n"
      unfolding x by (cases s) simp_all
    ultimately have "\<bar>f32_value v - of_int (sint x) / 100\<bar>
        \<le> \<bar>of_int (sint x) :: rat\<bar> / 100 / 2 ^ 22"
      using bound by (simp only:)
    with v_exp show ?thesis
      unfolding v_def a_def by blast
  qed
qed

subsection \<open>The origin of a snapshot\<close>

text \<open>
  Claim C6 says that with an origin the altitude of the snapshot equals the centimetre
  altitude of the source divided by 100. The code computes \<^verbatim>\<open>loc.alt*0.01f\<close> in single
  precision, and \<^verbatim>\<open>0.01f\<close> is not a hundredth. For an origin at 5 cm the entry point
  receives the float \<open>0x3D4CCCCC\<close>, that is \<open>13421772 / 2 ^ 28\<close>: not \<open>5 / 100\<close>, and not
  the float nearest to it either, which is \<open>0x3D4CCCCD\<close>.
\<close>

theorem origin_altitude_not_exact:
  "get_origin demo_ahrs = Some \<lparr> lat = 0x1F3A4D10, lng = 0x00112233, alt = 5 \<rparr>
   \<and> Fn_AHRS_update 100 (AHRS_state_of demo_env 7 demo_ahrs)
       \<in> set (fst (call_hook_AHRS_update demo_env 7 demo_ahrs demo_registry))
   \<and> origin_altitude (AHRS_state_of demo_env 7 demo_ahrs) = 0x3D4CCCCC
   \<and> f32_value (origin_altitude (AHRS_state_of demo_env 7 demo_ahrs)) = 13421772 / 2 ^ 28
   \<and> f32_value (origin_altitude (AHRS_state_of demo_env 7 demo_ahrs)) \<noteq> 5 / 100
   \<and> \<bar>f32_value 0x3D4CCCCD - 5 / 100\<bar> < \<bar>f32_value 0x3D4CCCCC - 5 / 100\<bar>"
proof -
  have o: "get_origin demo_ahrs = Some \<lparr> lat = 0x1F3A4D10, lng = 0x00112233, alt = 5 \<rparr>"
    by (simp add: demo_ahrs_def)
  from AHRS_state_of_origin_present [OF o, of demo_env 7]
  have a: "origin_altitude (AHRS_state_of demo_env 7 demo_ahrs) = 0x3D4CCCCC"
    by (simp add: five_centimetres)
  show ?thesis
    by (simp add: o a demo_AHRS_update_trace value_3D4CCCCC value_3D4CCCCD)
qed

text \<open>
  Claim C6, amended. In every snapshot that \<^verbatim>\<open>call_hook_AHRS_update\<close> passes to an entry
  point: if the source reports no origin, the origin flag is false and the latitude,
  longitude and altitude of the origin are zero; if the source reports an origin, the flag
  is true and the altitude is the single precision product of the centimetre altitude,
  converted to \<^verbatim>\<open>float\<close>, and the literal \<^verbatim>\<open>0.01f\<close>. That product is a finite float within
  \<open>2 ^ - 22\<close>, relatively, of the centimetre altitude divided by 100.
\<close>

theorem origin_of_snapshot:
  "\<forall>fn st. Fn_AHRS_update fn st \<in> set (fst (call_hook_AHRS_update e now ahrs r)) \<longrightarrow>
     (get_origin ahrs = None \<longrightarrow>
        \<not> origin_initialised st \<and> origin_latitude st = 0 \<and> origin_longitude st = 0
        \<and> origin_altitude st = 0)
     \<and> (\<forall>loc. get_origin ahrs = Some loc \<longrightarrow>
        origin_initialised st
        \<and> origin_altitude st = f32_mul (f32_of_int32 (alt loc)) float_0_01
        \<and> f32_exp (origin_altitude st) \<noteq> 255
        \<and> \<bar>f32_value (origin_altitude st) - of_int (sint (alt loc)) / 100\<bar>
            \<le> \<bar>of_int (sint (alt loc))\<bar> / 100 / 2 ^ 22)"
proof (intro allI impI conjI)
  fix fn st
  assume "Fn_AHRS_update fn st \<in> set (fst (call_hook_AHRS_update e now ahrs r))"
  then have st: "st = AHRS_state_of e now ahrs" by (rule AHRS_update_snapshot)
  {
    assume "get_origin ahrs = None"
    from AHRS_state_of_origin_absent [OF this, of e now]
    show "\<not> origin_initialised st" "origin_latitude st = 0" "origin_longitude st = 0"
      "origin_altitude st = 0"
      by (simp_all add: st)
  }
  fix loc
  assume "get_origin ahrs = Some loc"
  from AHRS_state_of_origin_present [OF this, of e now]
  have i: "origin_initialised st"
    and a: "origin_altitude st = f32_mul (f32_of_int32 (alt loc)) float_0_01"
    by (simp_all add: st)
  from i show "origin_initialised st" .
  from a show "origin_altitude st = f32_mul (f32_of_int32 (alt loc)) float_0_01" .
  from centimetres_to_metres [of "alt loc"]
  show "f32_exp (origin_altitude st) \<noteq> 255"
    and "\<bar>f32_value (origin_altitude st) - of_int (sint (alt loc)) / 100\<bar>
            \<le> \<bar>of_int (sint (alt loc))\<bar> / 100 / 2 ^ 22"
    unfolding a by blast+
qed

text \<open>The source of the small world, with its origin at 5 cm and with no origin.\<close>

theorem origin_of_snapshot_witness:
  "Fn_AHRS_update 100 (AHRS_state_of demo_env 7 demo_ahrs)
       \<in> set (fst (call_hook_AHRS_update demo_env 7 demo_ahrs demo_registry))
   \<and> get_origin demo_ahrs = Some \<lparr> lat = 0x1F3A4D10, lng = 0x00112233, alt = 5 \<rparr>
   \<and> origin_initialised (AHRS_state_of demo_env 7 demo_ahrs)
   \<and> origin_altitude (AHRS_state_of demo_env 7 demo_ahrs) = 0x3D4CCCCC
   \<and> Fn_AHRS_update 100 (AHRS_state_of demo_env 7 (demo_ahrs\<lparr>get_origin := None\<rparr>))
       \<in> set (fst (call_hook_AHRS_update demo_env 7 (demo_ahrs\<lparr>get_origin := None\<rparr>) demo_registry))
   \<and> get_origin (demo_ahrs\<lparr>get_origin := None\<rparr>) = None
   \<and> \<not> origin_initialised (AHRS_state_of demo_env 7 (demo_ahrs\<lparr>get_origin := None\<rparr>))
   \<and> origin_altitude (AHRS_state_of demo_env 7 (demo_ahrs\<lparr>get_origin := None\<rparr>)) = 0"
proof -
  have m: "Fn_AHRS_update 100 (AHRS_state_of demo_env 7 demo_ahrs)
       \<in> set (fst (call_hook_AHRS_update demo_env 7 demo_ahrs demo_registry))"
    by (simp add: demo_AHRS_update_trace)
  have o: "get_origin demo_ahrs = Some \<lparr> lat = 0x1F3A4D10, lng = 0x00112233, alt = 5 \<rparr>"
    by (simp add: demo_ahrs_def)
  have m': "Fn_AHRS_update 100 (AHRS_state_of demo_env 7 (demo_ahrs\<lparr>get_origin := None\<rparr>))
       \<in> set (fst (call_hook_AHRS_update demo_env 7 (demo_ahrs\<lparr>get_origin := None\<rparr>) demo_registry))"
    by (simp add: call_hook_AHRS_update_def demo_registry_def Let_def)
  have o': "get_origin (demo_ahrs\<lparr>get_origin := None\<rparr>) = None" by simp
  from origin_of_snapshot [of demo_env 7 demo_ahrs demo_registry, rule_format, OF m,
      THEN conjunct2, rule_format, OF o]
  have "origin_initialised (AHRS_state_of demo_env 7 demo_ahrs)"
    and "origin_altitude (AHRS_state_of demo_env 7 demo_ahrs) = 0x3D4CCCCC"
    by (simp_all add: five_centimetres)
  moreover
  from origin_of_snapshot [of demo_env 7 "demo_ahrs\<lparr>get_origin := None\<rparr>" demo_registry,
      rule_format, OF m', THEN conjunct1, rule_format, OF o']
  have "\<not> origin_initialised (AHRS_state_of demo_env 7 (demo_ahrs\<lparr>get_origin := None\<rparr>))"
    and "origin_altitude (AHRS_state_of demo_env 7 (demo_ahrs\<lparr>get_origin := None\<rparr>)) = 0"
    by simp_all
  ultimately show ?thesis using m o m' o' by blast
qed

subsection \<open>The earth-frame acceleration of a snapshot\<close>

text \<open>
  Claim C1 says that, with a hook in the AHRS list, the snapshot's \<^verbatim>\<open>accel_ef[i]\<close> is the
  \<open>i\<close>-th component of \<^verbatim>\<open>get_accel_ef()\<close> for \<open>i = 0, 1, 2\<close>. The code assigns
  \<^verbatim>\<open>accel_ef[0]\<close> of the source to all three lanes (the lemma \<open>AHRS_state_of_accel_ef\<close>),
  where the gyro rates beside it are copied lane by lane. In the small world the source
  reports \<open>(1.0, 2.0, 3.0)\<close> and the entry point receives \<open>(1.0, 1.0, 1.0)\<close>.
\<close>

theorem accel_ef_lanes_from_lane_0:
  "fst (call_hook_AHRS_update demo_env 7 demo_ahrs demo_registry) =
     Micros64 # AHRS_reads demo_ahrs @ [Fn_AHRS_update 100 (AHRS_state_of demo_env 7 demo_ahrs)]
   \<and> get_accel_ef demo_ahrs = Vector3f 0x3F800000 0x40000000 0x40400000
   \<and> accel_ef (AHRS_state_of demo_env 7 demo_ahrs) = [0x3F800000, 0x3F800000, 0x3F800000]
   \<and> accel_ef (AHRS_state_of demo_env 7 demo_ahrs) ! 1 \<noteq> vec_at (get_accel_ef demo_ahrs) 1
   \<and> accel_ef (AHRS_state_of demo_env 7 demo_ahrs) ! 2 \<noteq> vec_at (get_accel_ef demo_ahrs) 2"
  by (simp add: demo_AHRS_update_trace AHRS_state_of_accel_ef numeral_3_eq_3)
     (simp add: demo_ahrs_def)

subsection \<open>The euler angles of a snapshot\<close>

text \<open>
  Claim C8. In every snapshot that \<^verbatim>\<open>call_hook_AHRS_update\<close> passes to an entry point the
  three euler angles are the roll, pitch and yaw the source holds, while the quaternion is
  derived from the rotation matrix of the source. The euler angles are not recomputed from
  that quaternion: they stay the same whatever the rotation matrix and whatever
  \<^verbatim>\<open>from_rotation_matrix\<close> computes. So for each way \<open>to_eulers\<close> of reading euler angles
  off a quaternion there is a state of the source whose snapshot has euler angles other
  than those of its quaternion.
\<close>

theorem eulers_copied_from_cache:
  "(\<forall>fn st. Fn_AHRS_update fn st \<in> set (fst (call_hook_AHRS_update e now ahrs r)) \<longrightarrow>
       eulers st = [roll ahrs, pitch ahrs, yaw ahrs]
       \<and> quat st = map (quat_at (from_rotation_matrix e (get_rotation_body_to_ned ahrs))) [0, 1, 2, 3])
   \<and> (\<forall>R f. eulers (AHRS_state_of (e\<lparr>from_rotation_matrix := f\<rparr>) now
                 (ahrs\<lparr>get_rotation_body_to_ned := R\<rparr>))
             = eulers (AHRS_state_of e now ahrs))
   \<and> (hooks r HOOK_AHRS_UPDATE \<noteq> [] \<longrightarrow>
       (\<forall>to_eulers. \<exists>ahrs' fn st.
           Fn_AHRS_update fn st \<in> set (fst (call_hook_AHRS_update e now ahrs' r))
           \<and> eulers st \<noteq> to_eulers (quat st)))"
proof (intro conjI allI impI)
  fix fn st
  assume "Fn_AHRS_update fn st \<in> set (fst (call_hook_AHRS_update e now ahrs r))"
  then have st: "st = AHRS_state_of e now ahrs" by (rule AHRS_update_snapshot)
  show "eulers st = [roll ahrs, pitch ahrs, yaw ahrs]"
    by (simp add: st AHRS_state_of_eulers)
  show "quat st = map (quat_at (from_rotation_matrix e (get_rotation_body_to_ned ahrs))) [0, 1, 2, 3]"
    by (simp only: st AHRS_state_of_quat)
next
  fix R f
  show "eulers (AHRS_state_of (e\<lparr>from_rotation_matrix := f\<rparr>) now
                 (ahrs\<lparr>get_rotation_body_to_ned := R\<rparr>))
             = eulers (AHRS_state_of e now ahrs)"
    by (simp add: AHRS_state_of_eulers)
next
  fix to_eulers :: "float list \<Rightarrow> float list"
  assume ne: "hooks r HOOK_AHRS_UPDATE \<noteq> []"
  then obtain fn rest where l: "hooks r HOOK_AHRS_UPDATE = fn # rest"
    by (cases "hooks r HOOK_AHRS_UPDATE") auto
  define q where "q = map (quat_at (from_rotation_matrix e (get_rotation_body_to_ned ahrs))) [0, 1, 2, 3]"
  define x where "x = (case to_eulers q of [] \<Rightarrow> 0 | y # ys \<Rightarrow> y + 1)"
  define ahrs' where "ahrs' = ahrs\<lparr>roll := x\<rparr>"
  define st where "st = AHRS_state_of e now ahrs'"
  have quat: "quat st = q"
    by (simp add: st_def ahrs'_def q_def AHRS_state_of_quat)
  have eul: "eulers st = [x, pitch ahrs, yaw ahrs]"
    by (simp add: st_def ahrs'_def AHRS_state_of_eulers)
  have "eulers st \<noteq> to_eulers q"
    by (cases "to_eulers q") (simp_all add: eul x_def)
  moreover have "Fn_AHRS_update fn st \<in> set (fst (call_hook_AHRS_update e now ahrs' r))"
    by (simp add: call_hook_AHRS_update_def l st_def Let_def)
  ultimately show "\<exists>ahrs' fn st.
           Fn_AHRS_update fn st \<in> set (fst (call_hook_AHRS_update e now ahrs' r))
           \<and> eulers st \<noteq> to_eulers (quat st)"
    using quat by blast
qed

text \<open>In the small world: roll \<open>1.0\<close> beside the quaternion of no rotation.\<close>

theorem eulers_copied_from_cache_witness:
  "Fn_AHRS_update 100 (AHRS_state_of demo_env 7 demo_ahrs)
     \<in> set (fst (call_hook_AHRS_update demo_env 7 demo_ahrs demo_registry))
   \<and> eulers (AHRS_state_of demo_env 7 demo_ahrs) = [0x3F800000, 0, 0]
   \<and> quat (AHRS_state_of demo_env 7 demo_ahrs) = [0x3F800000, 0, 0, 0]"
proof -
  have m: "Fn_AHRS_update 100 (AHRS_state_of demo_env 7 demo_ahrs)
     \<in> set (fst (call_hook_AHRS_update demo_env 7 demo_ahrs demo_registry))"
    by (simp add: demo_AHRS_update_trace)
  from eulers_copied_from_cache [of demo_env 7 demo_ahrs demo_registry, THEN conjunct1,
      rule_format, OF m]
  have "eulers (AHRS_state_of demo_env 7 demo_ahrs) = [roll demo_ahrs, pitch demo_ahrs, yaw demo_ahrs]"
    and "quat (AHRS_state_of demo_env 7 demo_ahrs) =
      map (quat_at (from_rotation_matrix demo_env (get_rotation_body_to_ned demo_ahrs))) [0, 1, 2, 3]"
    by simp_all
  with m show ?thesis by (simp add: demo_env_def demo_ahrs_def)
qed

subsection \<open>A module without hooks\<close>

text \<open>
  Claim C4. When a module loads and none of the five symbol names resolves in it,
  \<^verbatim>\<open>module_scan\<close> probes the five names, unloads the module with \<^verbatim>\<open>dlclose\<close> as its last
  effect and returns; no hook list changes, and so every later dispatch does exactly what it
  would have done without the scan: no entry point of the module is ever called.
\<close>

theorem module_without_hooks_unloaded:
  assumes "dlopen e path = Some m"
      and "\<forall>i. dlsym e m (hook_names i) = None"
  shows "module_scan e path r =
           (Dlopen path # map (\<lambda>i. Dlsym m (hook_names i)) hook_ids @ [Dlclose m], Inr r)
         \<and> (\<forall>r'. snd (module_scan e path r) = Inr r' \<longrightarrow> (\<forall>X. hooks r' X = hooks r X))
         \<and> (\<forall>r' now. snd (module_scan e path r) = Inr r' \<longrightarrow>
              call_hook_setup_start now r' = call_hook_setup_start now r
              \<and> call_hook_setup_complete now r' = call_hook_setup_complete now r)
         \<and> (\<forall>r' now ahrs inst dt v. snd (module_scan e path r) = Inr r' \<longrightarrow>
              call_hook_AHRS_update e now ahrs r' = call_hook_AHRS_update e now ahrs r
              \<and> call_hook_gyro_sample e now inst dt v r' = call_hook_gyro_sample e now inst dt v r
              \<and> call_hook_accel_sample e now inst dt v r' = call_hook_accel_sample e now inst dt v r)"
proof -
  from assms(2) have "\<forall>i \<in> set hook_ids. dlsym e m (hook_names i) = None" by simp
  then have "module_scan_hooks e m hook_ids False r =
      (map (\<lambda>i. Dlsym m (hook_names i)) hook_ids, Inr (False, r))"
    by (rule module_scan_hooks_none)
  with assms(1) have "module_scan e path r =
      (Dlopen path # map (\<lambda>i. Dlsym m (hook_names i)) hook_ids @ [Dlclose m], Inr r)"
    by (simp add: module_scan_def)
  then show ?thesis by simp
qed

text \<open>The module \<^verbatim>\<open>plain.so\<close> of the small world.\<close>

lemma demo_plain_none: "dlsym demo_env 4 (hook_names i) = None"
  by (simp add: demo_env_def)

theorem module_without_hooks_unloaded_witness:
  "dlopen demo_env ''/lifo/plain.so'' = Some 4
   \<and> module_scan demo_env ''/lifo/plain.so'' demo_registry =
       ([Dlopen ''/lifo/plain.so'', Dlsym 4 ''hook_setup_start'', Dlsym 4 ''hook_setup_complete'',
         Dlsym 4 ''hook_AHRS_update'', Dlsym 4 ''hook_gyro_sample'', Dlsym 4 ''hook_accel_sample'',
         Dlclose 4], Inr demo_registry)"
proof -
  have o: "dlopen demo_env ''/lifo/plain.so'' = Some 4"
    by (simp add: demo_env_def)
  have n: "\<forall>i. dlsym demo_env 4 (hook_names i) = None"
    by (simp add: demo_plain_none)
  from module_without_hooks_unloaded [OF o n, of demo_registry, THEN conjunct1] o
  show ?thesis by (simp add: hook_ids_def)
qed

subsection \<open>The entries that init loads\<close>

text \<open>
  Claim C7. \<^verbatim>\<open>init\<close> hands to \<^verbatim>\<open>dlopen\<close> exactly the directory entries whose name ends in
  \<^verbatim>\<open>.so\<close>, compared with case (and whose path \<^verbatim>\<open>asprintf\<close> could build), in the order of
  the directory. For a directory that holds \<^verbatim>\<open>a.so\<close>, \<^verbatim>\<open>b.txt\<close> and \<^verbatim>\<open>c.SO\<close> there is
  exactly one load attempt, for \<^verbatim>\<open>a.so\<close>.
\<close>

theorem init_loads_so_entries:
  "(\<forall>names r'. opendir e p = Some names \<and> snd (init e p r) = Inr r' \<longrightarrow>
       load_attempts (fst (init e p r)) =
         map (\<lambda>n. p @ ''/'' @ n) (filter (\<lambda>n. suffix ''.so'' n \<and> asprintf_ok e p n) names))
   \<and> (opendir e p = Some [''a.so'', ''b.txt'', ''c.SO''] \<and> asprintf_ok e p ''a.so'' \<longrightarrow>
       load_attempts (fst (init e p r)) = [p @ ''/a.so''])"
proof (intro conjI allI impI)
  fix names r'
  assume a: "opendir e p = Some names \<and> snd (init e p r) = Inr r'"
  then have "snd (init_entries e p names r) = Inr r'"
    by (auto simp: init_def split: prod.splits sum.splits)
  from init_entries_load_attempts [OF this] a
  show "load_attempts (fst (init e p r)) =
         map (\<lambda>n. p @ ''/'' @ n) (filter (\<lambda>n. suffix ''.so'' n \<and> asprintf_ok e p n) names)"
    by (auto simp: init_def split: prod.splits sum.splits)
next
  assume a: "opendir e p = Some [''a.so'', ''b.txt'', ''c.SO''] \<and> asprintf_ok e p ''a.so''"
  have s1: "suffix ''.so'' ''a.so''" by (simp add: suffix_def)
  have s2: "\<not> suffix ''.so'' ''b.txt''" by (simp add: suffix_def append_eq_Cons_conv)
  have s3: "\<not> suffix ''.so'' ''c.SO''" by (simp add: suffix_def append_eq_Cons_conv)
  have "load_attempts (fst (init_entries e p [''a.so'', ''b.txt'', ''c.SO''] r)) = [p @ ''/a.so'']"
    using a s1 s2 s3 module_scan_load_attempts [of e "p @ ''/a.so''" r]
    by (cases "module_scan e (p @ ''/a.so'') r")
       (auto simp: init_entries_scan init_entries_skip split: sum.splits)
  with a show "load_attempts (fst (init e p r)) = [p @ ''/a.so'']"
    by (auto simp: init_def split: prod.splits sum.splits)
qed

text \<open>The directory \<^verbatim>\<open>/modules\<close> of the small world.\<close>

theorem init_loads_so_entries_witness:
  "opendir demo_env ''/modules'' = Some [''a.so'', ''b.txt'', ''c.SO'']
   \<and> asprintf_ok demo_env ''/modules'' ''a.so''
   \<and> load_attempts (fst (init demo_env ''/modules'' empty_registry)) = [''/modules/a.so'']"
proof -
  have h: "opendir demo_env ''/modules'' = Some [''a.so'', ''b.txt'', ''c.SO'']
     \<and> asprintf_ok demo_env ''/modules'' ''a.so''"
    by (simp add: demo_env_def)
  from init_loads_so_entries [of demo_env "''/modules''" empty_registry, THEN conjunct2,
      rule_format, OF h] h
  show ?thesis by simp
qed

text \<open>The scan does not look at the directory listing.\<close>

lemma module_scan_hooks_opendir:
  "module_scan_hooks (e\<lparr>opendir := f\<rparr>) m ids found r = module_scan_hooks e m ids found r"
  by (induction ids arbitrary: found r) (simp_all split: option.split)

lemma module_scan_opendir: "module_scan (e\<lparr>opendir := f\<rparr>) path r = module_scan e path r"
  by (simp add: module_scan_def module_scan_hooks_opendir cong: option.case_cong)

lemma init_entries_opendir:
  "init_entries (e\<lparr>opendir := f\<rparr>) p ns r = init_entries e p ns r"
proof (induction ns arbitrary: r)
  case Nil
  then show ?case by simp
next
  case (Cons d_name ns)
  then show ?case
    by (simp add: init_entries.simps(2) module_scan_opendir
          split: option.split prod.split sum.split)
qed

lemma init_entries_drop:
  "\<not> asprintf_ok e p n \<Longrightarrow> init_entries e p (ns1 @ n # ns2) r = init_entries e p (ns1 @ ns2) r"
  by (simp add: init_entries_append init_entries_skip cong: prod.case_cong sum.case_cong)

subsection \<open>The order of dispatch\<close>

lemma init_entries_append_Inr:
  assumes "init_entries e p (xs @ ys) r = (tr, Inr r')"
  shows "\<exists>t1 r1 t2. init_entries e p xs r = (t1, Inr r1) \<and> init_entries e p ys r1 = (t2, Inr r')"
proof -
  obtain t1 x where first: "init_entries e p xs r = (t1, x)"
    by (cases "init_entries e p xs r")
  with assms obtain r1 where x: "x = Inr r1"
    by (cases x) (simp_all add: init_entries_append)
  obtain t2 y where second: "init_entries e p ys r1 = (t2, y)"
    by (cases "init_entries e p ys r1")
  with assms first x have "y = Inr r'"
    by (simp add: init_entries_append)
  with first x second show ?thesis by blast
qed

lemma init_entries_Cons_Inr:
  assumes "suffix ''.so'' n" and "asprintf_ok e p n"
      and "init_entries e p (n # ns) r = (tr, Inr r')"
  shows "\<exists>t1 r1 t2. module_scan e (p @ ''/'' @ n) r = (t1, Inr r1)
           \<and> init_entries e p ns r1 = (t2, Inr r')"
proof -
  obtain t1 x where first: "module_scan e (p @ ''/'' @ n) r = (t1, x)"
    by (cases "module_scan e (p @ ''/'' @ n) r")
  with assms obtain r1 where x: "x = Inr r1"
    by (cases x) (simp_all add: init_entries_scan)
  obtain t2 y where second: "init_entries e p ns r1 = (t2, y)"
    by (cases "init_entries e p ns r1")
  with assms first x have "y = Inr r'"
    by (simp add: init_entries_scan)
  with first x second show ?thesis by blast
qed

text \<open>A scanned module that exports the symbol of a hook is at the head of the hook's list.\<close>

lemma module_scan_head:
  assumes "module_scan e path r = (tr, Inr r')" and "dlopen e path = Some m"
      and "dlsym e m (hook_names X) = Some s"
  shows "hooks r' X = s # hooks r X"
  using module_scan_lists [OF assms(1,2), of X] assms(3) by simp

text \<open>
  Claim C2. Let \<^verbatim>\<open>init\<close> scan a directory in which the module \<open>A\<close> comes before the module
  \<open>B\<close>, both exporting an entry point for the hook \<open>X\<close> (\<open>a\<close> and \<open>b\<close>). Then \<open>b\<close> stands
  before \<open>a\<close> in the list of \<open>X\<close>, and the dispatch of \<open>X\<close> calls the entry points in the
  order of that list: \<open>b\<close> before \<open>a\<close>, the module registered last first.
\<close>

theorem dispatch_order_lifo:
  assumes dir: "opendir e p = Some (ns1 @ A # ns2 @ B # ns3)"
      and A: "suffix ''.so'' A" "asprintf_ok e p A"
             "dlopen e (p @ ''/'' @ A) = Some mA" "dlsym e mA (hook_names X) = Some a"
      and B: "suffix ''.so'' B" "asprintf_ok e p B"
             "dlopen e (p @ ''/'' @ B) = Some mB" "dlsym e mB (hook_names X) = Some b"
      and ret: "snd (init e p r) = Inr r'"
  shows "\<exists>pre mid post.
           hooks r' X = pre @ b # mid @ a # post
           \<and> calls (fst (case X of
                  HOOK_SETUP_START \<Rightarrow> call_hook_setup_start now r'
                | HOOK_SETUP_COMPLETE \<Rightarrow> call_hook_setup_complete now r'
                | HOOK_AHRS_UPDATE \<Rightarrow> call_hook_AHRS_update e now ahrs r'
                | HOOK_GYRO_SAMPLE \<Rightarrow> call_hook_gyro_sample e now inst dt v r'
                | HOOK_ACCEL_SAMPLE \<Rightarrow> call_hook_accel_sample e now inst dt v r'))
             = pre @ b # mid @ a # post"
proof -
  from dir ret obtain tr where
    "init_entries e p (ns1 @ A # ns2 @ B # ns3) r = (tr, Inr r')"
    by (cases "init_entries e p (ns1 @ A # ns2 @ B # ns3) r")
       (auto simp: init_def split: sum.splits)
  from init_entries_append_Inr [OF this] obtain r1 t2 where
    "init_entries e p (A # ns2 @ B # ns3) r1 = (t2, Inr r')" by blast
  from init_entries_Cons_Inr [OF A(1,2) this] obtain t3 r2 t4 where
    scanA: "module_scan e (p @ ''/'' @ A) r1 = (t3, Inr r2)" and
    "init_entries e p (ns2 @ B # ns3) r2 = (t4, Inr r')" by blast
  from init_entries_append_Inr [OF this(2)] obtain t5 r3 t6 where
    between: "init_entries e p ns2 r2 = (t5, Inr r3)" and
    "init_entries e p (B # ns3) r3 = (t6, Inr r')" by blast
  from init_entries_Cons_Inr [OF B(1,2) this(2)] obtain t7 r4 t8 where
    scanB: "module_scan e (p @ ''/'' @ B) r3 = (t7, Inr r4)" and
    final: "init_entries e p ns3 r4 = (t8, Inr r')" by blast
  have h2: "hooks r2 X = a # hooks r1 X"
    using scanA A(3,4) by (rule module_scan_head)
  from init_entries_prepends [OF between] obtain mid where
    h3: "hooks r3 X = mid @ hooks r2 X" by blast
  have h4: "hooks r4 X = b # hooks r3 X"
    using scanB B(3,4) by (rule module_scan_head)
  from init_entries_prepends [OF final] obtain pre where
    h5: "hooks r' X = pre @ hooks r4 X" by blast
  from h2 h3 h4 h5 have l: "hooks r' X = pre @ b # mid @ a # hooks r1 X" by simp
  have "calls (fst (case X of
                  HOOK_SETUP_START \<Rightarrow> call_hook_setup_start now r'
                | HOOK_SETUP_COMPLETE \<Rightarrow> call_hook_setup_complete now r'
                | HOOK_AHRS_UPDATE \<Rightarrow> call_hook_AHRS_update e now ahrs r'
                | HOOK_GYRO_SAMPLE \<Rightarrow> call_hook_gyro_sample e now inst dt v r'
                | HOOK_ACCEL_SAMPLE \<Rightarrow> call_hook_accel_sample e now inst dt v r'))
        = hooks r' X"
    by (cases X) (simp_all add: calls_call_hook)
  with l show ?thesis by metis
qed


text \<open>The directory \<^verbatim>\<open>/lifo\<close> of the small world.\<close>

lemma demo_lifo_returns: "\<exists>r'. snd (init demo_env ''/lifo'' empty_registry) = Inr r'"
proof -
  have "5 * length [''first.so'', ''broken.so'', ''second.so'', ''plain.so''] \<le> free_nodes empty_registry"
    by (simp add: empty_registry_def)
  from init_entries_returns [OF this, of demo_env "''/lifo''"] show ?thesis
    by (auto simp: init_def demo_env_def)
qed

theorem dispatch_order_lifo_witness:
  "opendir demo_env ''/lifo'' = Some ([] @ ''first.so'' # [''broken.so''] @ ''second.so'' # [''plain.so''])
   \<and> suffix ''.so'' ''first.so'' \<and> asprintf_ok demo_env ''/lifo'' ''first.so''
   \<and> dlopen demo_env (''/lifo'' @ ''/'' @ ''first.so'') = Some 2
   \<and> dlsym demo_env 2 (hook_names HOOK_SETUP_START) = Some 200
   \<and> suffix ''.so'' ''second.so'' \<and> asprintf_ok demo_env ''/lifo'' ''second.so''
   \<and> dlopen demo_env (''/lifo'' @ ''/'' @ ''second.so'') = Some 3
   \<and> dlsym demo_env 3 (hook_names HOOK_SETUP_START) = Some 300
   \<and> (\<exists>r'. snd (init demo_env ''/lifo'' empty_registry) = Inr r'
         \<and> (\<exists>pre mid post.
               hooks r' HOOK_SETUP_START = pre @ 300 # mid @ 200 # post
               \<and> calls (fst (call_hook_setup_start 7 r')) = pre @ 300 # mid @ 200 # post))"
proof -
  have dir: "opendir demo_env ''/lifo'' =
      Some ([] @ ''first.so'' # [''broken.so''] @ ''second.so'' # [''plain.so''])"
    by (simp add: demo_env_def)
  have A: "suffix ''.so'' ''first.so''" "asprintf_ok demo_env ''/lifo'' ''first.so''"
    "dlopen demo_env (''/lifo'' @ ''/'' @ ''first.so'') = Some 2"
    "dlsym demo_env 2 (hook_names HOOK_SETUP_START) = Some 200"
    by (simp_all add: demo_env_def suffix_def)
  have B: "suffix ''.so'' ''second.so''" "asprintf_ok demo_env ''/lifo'' ''second.so''"
    "dlopen demo_env (''/lifo'' @ ''/'' @ ''second.so'') = Some 3"
    "dlsym demo_env 3 (hook_names HOOK_SETUP_START) = Some 300"
    by (simp_all add: demo_env_def suffix_def)
  from demo_lifo_returns obtain r' where ret: "snd (init demo_env ''/lifo'' empty_registry) = Inr r'"
    by blast
  from dispatch_order_lifo [OF dir A B ret, of 7 demo_ahrs 0 0 "Vector3f 0 0 0"]
  have "\<exists>pre mid post.
               hooks r' HOOK_SETUP_START = pre @ 300 # mid @ 200 # post
               \<and> calls (fst (call_hook_setup_start 7 r')) = pre @ 300 # mid @ 200 # post"
    by simp
  with ret have "\<exists>r'. snd (init demo_env ''/lifo'' empty_registry) = Inr r'
         \<and> (\<exists>pre mid post.
               hooks r' HOOK_SETUP_START = pre @ 300 # mid @ 200 # post
               \<and> calls (fst (call_hook_setup_start 7 r')) = pre @ 300 # mid @ 200 # post)"
    by blast
  with dir A B show ?thesis by blast
qed

text \<open>The whole run in the small world: the last module scanned is called first.\<close>

lemma demo_lifo_run:
  "\<exists>r'. snd (init demo_env ''/lifo'' empty_registry) = Inr r'
     \<and> calls (fst (call_hook_setup_start 7 r')) = [300, 200]
     \<and> calls (fst (call_hook_AHRS_update demo_env 7 demo_ahrs r')) = [302, 202]"
  by (simp add: init_def init_entries.simps(2) module_scan_def hook_ids_def demo_env_def
        empty_registry_def calls_call_hook)

subsection \<open>Errors during discovery\<close>

lemma module_scan_hooks_exact:
  "if length (filter (\<lambda>i. dlsym e m (hook_names i) \<noteq> None) ids) \<le> free_nodes r
   then \<exists>tr found' r'. module_scan_hooks e m ids found r = (tr, Inr (found', r'))
          \<and> free_nodes r' = free_nodes r - length (filter (\<lambda>i. dlsym e m (hook_names i) \<noteq> None) ids)
   else \<exists>tr i. module_scan_hooks e m ids found r =
          (tr, Inl (Panic (''Failed to allocate hook for '' @ hook_names i)))"
proof (induction ids arbitrary: found r)
  case Nil
  then show ?case by simp
next
  case (Cons i ids)
  let ?c = "length (filter (\<lambda>i. dlsym e m (hook_names i) \<noteq> None) ids)"
  show ?case
  proof (cases "dlsym e m (hook_names i)")
    case None
    with Cons.IH [of r found] show ?thesis
      by (cases "module_scan_hooks e m ids found r") (auto split: if_splits)
  next
    case (Some s)
    let ?r = "r\<lparr>hooks := (hooks r)(i := s # hooks r i), free_nodes := free_nodes r - 1\<rparr>"
    show ?thesis
    proof (cases "free_nodes r = 0")
      case True
      with Some show ?thesis by auto
    next
      case False
      then have eq: "(Suc ?c \<le> free_nodes r) = (?c \<le> free_nodes ?r)" by auto
      from False have sub: "free_nodes r - Suc ?c = free_nodes ?r - ?c" by simp
      from Cons.IH [of ?r True] Some False show ?thesis
        by (cases "module_scan_hooks e m ids True ?r")
           (auto simp: eq sub split: if_splits)
    qed
  qed
qed

lemma module_scan_exact:
  "if symbols_found e path \<le> free_nodes r
   then \<exists>tr r'. module_scan e path r = (tr, Inr r')
          \<and> free_nodes r' = free_nodes r - symbols_found e path
   else \<exists>tr i. module_scan e path r =
          (tr, Inl (Panic (''Failed to allocate hook for '' @ hook_names i)))"
proof (cases "dlopen e path")
  case None
  then show ?thesis by (simp add: module_scan_def symbols_found_def)
next
  case (Some m)
  from module_scan_hooks_exact [of e m hook_ids r False] Some show ?thesis
    by (auto simp: module_scan_def symbols_found_def split: if_splits)
qed

lemma scanned_paths_Nil [simp]: "scanned_paths e p [] = []"
  by (simp add: scanned_paths_def)

lemma scanned_paths_append: "scanned_paths e p (xs @ ys) = scanned_paths e p xs @ scanned_paths e p ys"
  by (simp add: scanned_paths_def)

lemma nodes_needed_skip:
  "\<not> (suffix ''.so'' d \<and> asprintf_ok e p d) \<Longrightarrow> nodes_needed e p (d # ns) = nodes_needed e p ns"
  by (auto simp: nodes_needed_def scanned_paths_def)

lemma nodes_needed_scan:
  "suffix ''.so'' d \<Longrightarrow> asprintf_ok e p d \<Longrightarrow>
   nodes_needed e p (d # ns) = symbols_found e (p @ ''/'' @ d) + nodes_needed e p ns"
  by (simp add: nodes_needed_def scanned_paths_def)

lemma init_entries_exact:
  "if nodes_needed e p ns \<le> free_nodes r
   then \<exists>tr r'. init_entries e p ns r = (tr, Inr r')
   else \<exists>tr i. init_entries e p ns r =
          (tr, Inl (Panic (''Failed to allocate hook for '' @ hook_names i)))"
proof (induction ns arbitrary: r)
  case Nil
  then show ?case by (simp add: nodes_needed_def)
next
  case (Cons d ns)
  show ?case
  proof (cases "suffix ''.so'' d \<and> asprintf_ok e p d")
    case False
    then have a: "init_entries e p (d # ns) r = init_entries e p ns r"
      by (rule init_entries_skip)
    from False have b: "nodes_needed e p (d # ns) = nodes_needed e p ns"
      by (rule nodes_needed_skip)
    show ?thesis unfolding a b by (rule Cons.IH)
  next
    case True
    then have need: "nodes_needed e p (d # ns) = symbols_found e (p @ ''/'' @ d) + nodes_needed e p ns"
      by (simp add: nodes_needed_scan)
    from True have step: "init_entries e p (d # ns) r =
        (case module_scan e (p @ ''/'' @ d) r of
           (tr, Inl err) \<Rightarrow> (tr, Inl err)
         | (tr, Inr r') \<Rightarrow> after tr (init_entries e p ns r'))"
      by (simp add: init_entries_scan)
    show ?thesis
    proof (cases "symbols_found e (p @ ''/'' @ d) \<le> free_nodes r")
      case False
      with module_scan_exact [of e "p @ ''/'' @ d" r] obtain tr i where
        "module_scan e (p @ ''/'' @ d) r =
           (tr, Inl (Panic (''Failed to allocate hook for '' @ hook_names i)))"
        by (simp only: if_False) blast
      then have "init_entries e p (d # ns) r =
           (tr, Inl (Panic (''Failed to allocate hook for '' @ hook_names i)))"
        unfolding step by (simp only: prod.case sum.case)
      then have "\<exists>tr i. init_entries e p (d # ns) r =
           (tr, Inl (Panic (''Failed to allocate hook for '' @ hook_names i)))"
        by blast
      moreover from False need have "\<not> nodes_needed e p (d # ns) \<le> free_nodes r"
        by simp
      ultimately show ?thesis by (simp only: if_False)
    next
      case enough: True
      with module_scan_exact [of e "p @ ''/'' @ d" r] obtain t1 r1 where
        scan: "module_scan e (p @ ''/'' @ d) r = (t1, Inr r1)" and
        left: "free_nodes r1 = free_nodes r - symbols_found e (p @ ''/'' @ d)"
        by (simp only: if_True) blast
      from enough left have eq: "(nodes_needed e p (d # ns) \<le> free_nodes r)
          = (nodes_needed e p ns \<le> free_nodes r1)"
        unfolding need by auto
      have step': "init_entries e p (d # ns) r = after t1 (init_entries e p ns r1)"
        unfolding step scan by (simp only: prod.case sum.case)
      show ?thesis
      proof (cases "nodes_needed e p ns \<le> free_nodes r1")
        case True
        with Cons.IH [of r1] obtain t2 r2 where "init_entries e p ns r1 = (t2, Inr r2)"
          by (simp only: if_True) blast
        then have "init_entries e p (d # ns) r = (t1 @ t2, Inr r2)"
          unfolding step' by (simp only: after.simps)
        then have "\<exists>tr r'. init_entries e p (d # ns) r = (tr, Inr r')" by blast
        with True show ?thesis unfolding eq by (simp only: if_True)
      next
        case False
        with Cons.IH [of r1] obtain t2 i where "init_entries e p ns r1 =
            (t2, Inl (Panic (''Failed to allocate hook for '' @ hook_names i)))"
          by (simp only: if_False) blast
        then have "init_entries e p (d # ns) r =
            (t1 @ t2, Inl (Panic (''Failed to allocate hook for '' @ hook_names i)))"
          unfolding step' by (simp only: after.simps)
        then have "\<exists>tr i. init_entries e p (d # ns) r =
            (tr, Inl (Panic (''Failed to allocate hook for '' @ hook_names i)))" by blast
        with False show ?thesis unfolding eq by (simp only: if_False)
      qed
    qed
  qed
qed

lemma init_entries_panic:
  assumes "init_entries e p ns r = (tr, Inl err)"
  shows "\<exists>i. err = Panic (''Failed to allocate hook for '' @ hook_names i)"
proof (cases "nodes_needed e p ns \<le> free_nodes r")
  case True
  with init_entries_exact [of e p ns r] obtain t r' where "init_entries e p ns r = (t, Inr r')"
    by (simp only: if_True) blast
  with assms show ?thesis by simp
next
  case False
  with init_entries_exact [of e p ns r] obtain t i where "init_entries e p ns r =
      (t, Inl (Panic (''Failed to allocate hook for '' @ hook_names i)))"
    by (simp only: if_False) blast
  with assms have "err = Panic (''Failed to allocate hook for '' @ hook_names i)"
    by (simp only: prod.inject sum.inject)
  then show ?thesis by blast
qed

lemma init_entries_returns_iff:
  "(\<exists>tr r'. init_entries e p ns r = (tr, Inr r')) \<longleftrightarrow> nodes_needed e p ns \<le> free_nodes r"
proof (cases "nodes_needed e p ns \<le> free_nodes r")
  case True
  with init_entries_exact [of e p ns r] show ?thesis
    by (simp only: if_True)
next
  case False
  with init_entries_exact [of e p ns r] obtain t i where "init_entries e p ns r =
      (t, Inl (Panic (''Failed to allocate hook for '' @ hook_names i)))"
    by (simp only: if_False) blast
  then have "\<not> (\<exists>tr r'. init_entries e p ns r = (tr, Inr r'))" by simp
  with False show ?thesis by (simp only:)
qed

text \<open>A scanned module that exports the symbol of a hook is in the hook's list at the end.\<close>

lemma init_entries_registers:
  assumes "d \<in> set ns" and "suffix ''.so'' d" and "asprintf_ok e p d"
      and "dlopen e (p @ ''/'' @ d) = Some m" and "dlsym e m (hook_names X) = Some s"
      and "init_entries e p ns r = (tr, Inr r')"
  shows "s \<in> set (hooks r' X)"
  using assms(1,6)
proof (induction ns arbitrary: r tr)
  case Nil
  then show ?case by simp
next
  case (Cons n ns)
  show ?case
  proof (cases "suffix ''.so'' n \<and> asprintf_ok e p n")
    case False
    with Cons.prems assms(2,3) have "d \<in> set ns" and "init_entries e p ns r = (tr, Inr r')"
      by (auto simp: init_entries_skip)
    then show ?thesis by (rule Cons.IH)
  next
    case True
    then have "suffix ''.so'' n" and "asprintf_ok e p n" by simp_all
    from init_entries_Cons_Inr [OF this Cons.prems(2)] obtain t1 r1 t2 where
      scan: "module_scan e (p @ ''/'' @ n) r = (t1, Inr r1)" and
      rest: "init_entries e p ns r1 = (t2, Inr r')" by blast
    show ?thesis
    proof (cases "d = n")
      case True
      with scan assms(4,5) have "hooks r1 X = s # hooks r X"
        by (simp add: module_scan_head)
      moreover from init_entries_prepends [OF rest] obtain pre where
        "hooks r' X = pre @ hooks r1 X" by blast
      ultimately show ?thesis by simp
    next
      case False
      with Cons.prems(1) have "d \<in> set ns" by simp
      then show ?thesis using rest by (rule Cons.IH)
    qed
  qed
qed

lemma init_Inr:
  assumes "opendir e p = Some names"
  shows "snd (init e p r) = Inr r' \<longleftrightarrow> (\<exists>tr. init_entries e p names r = (tr, Inr r'))"
  using assms
  by (cases "init_entries e p names r") (auto simp: init_def split: sum.splits)

lemma init_Inl:
  assumes "snd (init e p r) = Inl err"
  shows "\<exists>names tr. opendir e p = Some names \<and> init_entries e p names r = (tr, Inl err)"
proof (cases "opendir e p")
  case None
  with assms show ?thesis by (simp add: init_def)
next
  case (Some names)
  with assms show ?thesis
    by (cases "init_entries e p names r") (auto simp: init_def split: sum.splits)
qed

text \<open>
  Claim C10. \<^verbatim>\<open>init\<close> never signals a failure to its caller. When the directory cannot be
  opened it returns with the registry unchanged. An entry for which \<^verbatim>\<open>asprintf\<close> fails is
  skipped and nothing else: \<^verbatim>\<open>init\<close> does what it does on the directory without that entry,
  and discovery goes on with the entries after it, so that a run that returns has handed
  every loadable entry before and after it to \<^verbatim>\<open>dlopen\<close>, in order, and has registered the
  hook symbols of the modules after it. \<^verbatim>\<open>init\<close> has no outcome other than returning or the
  panic on a failed allocation of a node, and it returns exactly when the allocator can
  provide the nodes the scans need.
\<close>

theorem init_never_fails:
  "(opendir e p = None \<longrightarrow> init e p r = ([Opendir p], Inr r))
   \<and> (\<forall>ns1 n ns2. opendir e p = Some (ns1 @ n # ns2) \<and> \<not> asprintf_ok e p n \<longrightarrow>
         init e p r = init (e\<lparr>opendir := (opendir e)(p := Some (ns1 @ ns2))\<rparr>) p r
         \<and> (\<forall>r'. snd (init e p r) = Inr r' \<longrightarrow>
               load_attempts (fst (init e p r)) = scanned_paths e p ns1 @ scanned_paths e p ns2
               \<and> (\<forall>d m X s. d \<in> set ns2 \<and> suffix ''.so'' d \<and> asprintf_ok e p d
                     \<and> dlopen e (p @ ''/'' @ d) = Some m \<and> dlsym e m (hook_names X) = Some s
                     \<longrightarrow> s \<in> set (hooks r' X))))
   \<and> (\<forall>err. snd (init e p r) = Inl err \<longrightarrow>
         (\<exists>i. err = Panic (''Failed to allocate hook for '' @ hook_names i)))
   \<and> (\<forall>names. opendir e p = Some names \<longrightarrow>
         ((\<exists>r'. snd (init e p r) = Inr r') \<longleftrightarrow> nodes_needed e p names \<le> free_nodes r))"
proof (intro conjI allI impI)
  assume "opendir e p = None"
  then show "init e p r = ([Opendir p], Inr r)" by (simp add: init_def)
next
  fix ns1 n ns2
  assume a: "opendir e p = Some (ns1 @ n # ns2) \<and> \<not> asprintf_ok e p n"
  then have "init_entries e p (ns1 @ n # ns2) r = init_entries e p (ns1 @ ns2) r"
    by (simp add: init_entries_drop)
  with a show "init e p r = init (e\<lparr>opendir := (opendir e)(p := Some (ns1 @ ns2))\<rparr>) p r"
    by (simp add: init_def init_entries_opendir)
next
  fix ns1 n ns2 r'
  assume a: "opendir e p = Some (ns1 @ n # ns2) \<and> \<not> asprintf_ok e p n"
    and ret: "snd (init e p r) = Inr r'"
  from a ret obtain tr where ie: "init_entries e p (ns1 @ n # ns2) r = (tr, Inr r')"
    by (auto simp: init_Inr)
  then have "snd (init_entries e p (ns1 @ n # ns2) r) = Inr r'" by simp
  from init_entries_load_attempts [OF this] a
  have "load_attempts (fst (init_entries e p (ns1 @ n # ns2) r))
      = scanned_paths e p ns1 @ scanned_paths e p ns2"
    by (simp add: scanned_paths_def)
  with a ie show "load_attempts (fst (init e p r)) = scanned_paths e p ns1 @ scanned_paths e p ns2"
    by (simp add: init_def)
  fix d m X s
  assume d: "d \<in> set ns2 \<and> suffix ''.so'' d \<and> asprintf_ok e p d
       \<and> dlopen e (p @ ''/'' @ d) = Some m \<and> dlsym e m (hook_names X) = Some s"
  then have "d \<in> set (ns1 @ n # ns2)" by simp
  with d ie show "s \<in> set (hooks r' X)"
    by (blast intro: init_entries_registers)
next
  fix err
  assume "snd (init e p r) = Inl err"
  from init_Inl [OF this] obtain names tr where "init_entries e p names r = (tr, Inl err)"
    by blast
  then show "\<exists>i. err = Panic (''Failed to allocate hook for '' @ hook_names i)"
    by (rule init_entries_panic)
next
  fix names
  assume o: "opendir e p = Some names"
  have "(\<exists>r'. snd (init e p r) = Inr r') \<longleftrightarrow> (\<exists>tr r'. init_entries e p names r = (tr, Inr r'))"
    using init_Inr [OF o, of r] by blast
  then show "(\<exists>r'. snd (init e p r) = Inr r') \<longleftrightarrow> nodes_needed e p names \<le> free_nodes r"
    by (simp only: init_entries_returns_iff)
qed

text \<open>
  The small world: \<^verbatim>\<open>/lifo\<close> needs ten nodes, five for each of its two modules with hooks,
  and with seven the third allocation for \<^verbatim>\<open>second.so\<close> fails; \<^verbatim>\<open>/modules\<close> needs one.
\<close>

lemma demo_lifo_needs:
  "nodes_needed demo_env ''/lifo'' [''first.so'', ''broken.so'', ''second.so'', ''plain.so''] = 10"
  by (simp add: nodes_needed_def scanned_paths_def symbols_found_def demo_env_def hook_ids_def
        suffix_def)

lemma demo_modules_needs:
  "nodes_needed demo_env ''/modules'' [''a.so'', ''b.txt'', ''c.SO''] = 1"
  by (simp add: nodes_needed_def scanned_paths_def symbols_found_def demo_env_def hook_ids_def
        suffix_def append_eq_Cons_conv)

lemma demo_lifo_panics:
  "snd (init demo_env ''/lifo'' (empty_registry\<lparr>free_nodes := 7\<rparr>))
     = Inl (Panic ''Failed to allocate hook for hook_AHRS_update'')"
  by (simp add: init_def init_entries.simps(2) module_scan_def hook_ids_def demo_env_def
        empty_registry_def)

text \<open>
  A directory that does not exist; \<^verbatim>\<open>/lifo\<close>, where \<^verbatim>\<open>second.so\<close> and \<^verbatim>\<open>plain.so\<close> are
  loaded after the skipped \<^verbatim>\<open>broken.so\<close>; \<^verbatim>\<open>/lifo\<close> with seven nodes, and \<^verbatim>\<open>/modules\<close>
  with one.
\<close>

theorem init_never_fails_witness:
  "opendir demo_env ''/nowhere'' = None
   \<and> init demo_env ''/nowhere'' empty_registry = ([Opendir ''/nowhere''], Inr empty_registry)
   \<and> opendir demo_env ''/lifo'' = Some ([''first.so''] @ ''broken.so'' # [''second.so'', ''plain.so''])
   \<and> \<not> asprintf_ok demo_env ''/lifo'' ''broken.so''
   \<and> init demo_env ''/lifo'' empty_registry =
       init (demo_env\<lparr>opendir := (opendir demo_env)
               (''/lifo'' := Some ([''first.so''] @ [''second.so'', ''plain.so'']))\<rparr>)
         ''/lifo'' empty_registry
   \<and> nodes_needed demo_env ''/lifo'' [''first.so'', ''broken.so'', ''second.so'', ''plain.so''] = 10
   \<and> (\<exists>r'. snd (init demo_env ''/lifo'' empty_registry) = Inr r'
         \<and> load_attempts (fst (init demo_env ''/lifo'' empty_registry))
             = [''/lifo/first.so'', ''/lifo/second.so'', ''/lifo/plain.so'']
         \<and> 300 \<in> set (hooks r' HOOK_SETUP_START))
   \<and> snd (init demo_env ''/lifo'' (empty_registry\<lparr>free_nodes := 7\<rparr>))
       = Inl (Panic ''Failed to allocate hook for hook_AHRS_update'')
   \<and> (\<exists>i. Panic ''Failed to allocate hook for hook_AHRS_update''
         = Panic (''Failed to allocate hook for '' @ hook_names i))
   \<and> \<not> (\<exists>r'. snd (init demo_env ''/lifo'' (empty_registry\<lparr>free_nodes := 7\<rparr>)) = Inr r')
   \<and> (\<exists>r'. snd (init demo_env ''/modules'' (empty_registry\<lparr>free_nodes := 1\<rparr>)) = Inr r')"
proof -
  have a: "opendir demo_env ''/nowhere'' = None" by (simp add: demo_env_def)
  have b: "opendir demo_env ''/lifo'' = Some ([''first.so''] @ ''broken.so'' # [''second.so'', ''plain.so''])
    \<and> \<not> asprintf_ok demo_env ''/lifo'' ''broken.so''"
    by (simp add: demo_env_def)
  have c: "opendir demo_env ''/lifo'' = Some [''first.so'', ''broken.so'', ''second.so'', ''plain.so'']"
    by (simp add: demo_env_def)
  have c': "opendir demo_env ''/modules'' = Some [''a.so'', ''b.txt'', ''c.SO'']"
    by (simp add: demo_env_def)
  note t = init_never_fails [of demo_env _ empty_registry]
  note t7 = init_never_fails [of demo_env "''/lifo''" "empty_registry\<lparr>free_nodes := 7\<rparr>"]
  note t1 = init_never_fails [of demo_env "''/modules''" "empty_registry\<lparr>free_nodes := 1\<rparr>"]
  have w2: "init demo_env ''/nowhere'' empty_registry = ([Opendir ''/nowhere''], Inr empty_registry)"
    using t [of "''/nowhere''", THEN conjunct1, rule_format, OF a] .
  note skip = t [of "''/lifo''", THEN conjunct2, THEN conjunct1, rule_format, OF b]
  have w5: "init demo_env ''/lifo'' empty_registry =
       init (demo_env\<lparr>opendir := (opendir demo_env)
               (''/lifo'' := Some ([''first.so''] @ [''second.so'', ''plain.so'']))\<rparr>)
         ''/lifo'' empty_registry"
    using skip by (rule conjunct1)
  have "(\<exists>r'. snd (init demo_env ''/lifo'' empty_registry) = Inr r')
      \<longleftrightarrow> nodes_needed demo_env ''/lifo'' [''first.so'', ''broken.so'', ''second.so'', ''plain.so'']
            \<le> free_nodes empty_registry"
    using t [of "''/lifo''", THEN conjunct2, THEN conjunct2, THEN conjunct2, rule_format, OF c] .
  then obtain r' where ret: "snd (init demo_env ''/lifo'' empty_registry) = Inr r'"
    by (auto simp: demo_lifo_needs empty_registry_def)
  note cont = skip [THEN conjunct2, rule_format, OF ret]
  have loads: "load_attempts (fst (init demo_env ''/lifo'' empty_registry))
             = [''/lifo/first.so'', ''/lifo/second.so'', ''/lifo/plain.so'']"
    using cont [THEN conjunct1]
    by (simp add: scanned_paths_def demo_env_def suffix_def)
  have d: "''second.so'' \<in> set [''second.so'', ''plain.so''] \<and> suffix ''.so'' ''second.so''
       \<and> asprintf_ok demo_env ''/lifo'' ''second.so''
       \<and> dlopen demo_env (''/lifo'' @ ''/'' @ ''second.so'') = Some 3
       \<and> dlsym demo_env 3 (hook_names HOOK_SETUP_START) = Some 300"
    by (simp add: demo_env_def suffix_def)
  have reg: "300 \<in> set (hooks r' HOOK_SETUP_START)"
    using cont [THEN conjunct2, rule_format, OF d] .
  from ret loads reg have w7: "\<exists>r'. snd (init demo_env ''/lifo'' empty_registry) = Inr r'
         \<and> load_attempts (fst (init demo_env ''/lifo'' empty_registry))
             = [''/lifo/first.so'', ''/lifo/second.so'', ''/lifo/plain.so'']
         \<and> 300 \<in> set (hooks r' HOOK_SETUP_START)"
    by blast
  have w9: "\<exists>i. Panic ''Failed to allocate hook for hook_AHRS_update''
         = Panic (''Failed to allocate hook for '' @ hook_names i)"
    using t7 [THEN conjunct2, THEN conjunct2, THEN conjunct1, rule_format, OF demo_lifo_panics] .
  have "(\<exists>r'. snd (init demo_env ''/lifo'' (empty_registry\<lparr>free_nodes := 7\<rparr>)) = Inr r')
      \<longleftrightarrow> nodes_needed demo_env ''/lifo'' [''first.so'', ''broken.so'', ''second.so'', ''plain.so'']
            \<le> free_nodes (empty_registry\<lparr>free_nodes := 7\<rparr>)"
    using t7 [THEN conjunct2, THEN conjunct2, THEN conjunct2, rule_format, OF c] .
  then have w10: "\<not> (\<exists>r'. snd (init demo_env ''/lifo'' (empty_registry\<lparr>free_nodes := 7\<rparr>)) = Inr r')"
    by (simp add: demo_lifo_needs)
  have "(\<exists>r'. snd (init demo_env ''/modules'' (empty_registry\<lparr>free_nodes := 1\<rparr>)) = Inr r')
      \<longleftrightarrow> nodes_needed demo_env ''/modules'' [''a.so'', ''b.txt'', ''c.SO'']
            \<le> free_nodes (empty_registry\<lparr>free_nodes := 1\<rparr>)"
    using t1 [THEN conjunct2, THEN conjunct2, THEN conjunct2, rule_format, OF c'] .
  then have w11: "\<exists>r'. snd (init demo_env ''/modules'' (empty_registry\<lparr>free_nodes := 1\<rparr>)) = Inr r'"
    by (simp add: demo_modules_needs)
  from a w2 b w5 demo_lifo_needs w7 demo_lifo_panics w9 w10 w11 show ?thesis
    by blast
qed

end
